theory Spec2Isabelle
  imports Main "HOL-Library.AList" "HOL-Library.Sublist"
begin

section \<open>Python values\<close>

text \<open>
  The module \<^verbatim>\<open>social/backends/base.py\<close> is dynamically typed: keyword arguments,
  step results, settings and user objects are arbitrary Python values. The fragment of
  the value universe that the code inspects is modelled by one datatype. Dictionaries
  are association lists in insertion order, as Python keeps them; their keys are strings
  (keyword arguments and the pipeline context are string-keyed). An instance of a
  user-defined class is \<open>PObj label attrs\<close>: a label and its attribute dictionary.
  The strategy collaborator is an object of its own kind, \<open>PStrategy\<close>.
\<close>

datatype 'v strategy = Strategy
  (settings: "(string \<times> 'v) list")
  (request: 'v)
  (request_data: 'v)
  (get_pipeline: "string list")

datatype pyval =
    PNone
  | PBool bool
  | PInt int
  | PStr string
  | PList "pyval list"
  | PDict "(string \<times> pyval) list"
  | PObj string "(string \<times> pyval) list"
  | PStrategy "pyval strategy"

type_synonym kwargs = "(string \<times> pyval) list"

datatype error =
    AttributeError
  | TypeError
  | IndexError
  | ResolutionError
  | StepError string

text \<open>Truth value testing (\<^verbatim>\<open>if x\<close>, \<^verbatim>\<open>x or y\<close>): \<^verbatim>\<open>None\<close>, \<^verbatim>\<open>False\<close>, zero and
  empty containers are false; instances are true.\<close>

fun truthy :: "pyval \<Rightarrow> bool" where
  "truthy PNone = False"
| "truthy (PBool b) = b"
| "truthy (PInt i) = (i \<noteq> 0)"
| "truthy (PStr s) = (s \<noteq> [])"
| "truthy (PList xs) = (xs \<noteq> [])"
| "truthy (PDict d) = (d \<noteq> [])"
| "truthy (PObj c attrs) = True"
| "truthy (PStrategy s) = True"

text \<open>\<^verbatim>\<open>isinstance(x, dict)\<close>.\<close>

fun is_dict :: "pyval \<Rightarrow> bool" where
  "is_dict (PDict d) = True"
| "is_dict v = False"

text \<open>\<^verbatim>\<open>k in d\<close>, \<^verbatim>\<open>d.get(k)\<close>, \<^verbatim>\<open>d.setdefault(k, v)\<close> and \<^verbatim>\<open>d.update(r)\<close> on
  dictionaries.\<close>

definition has_key :: "string \<Rightarrow> kwargs \<Rightarrow> bool" where
  "has_key k d = (map_of d k \<noteq> None)"

definition dict_get :: "kwargs \<Rightarrow> string \<Rightarrow> pyval" where
  "dict_get d k = (case map_of d k of None \<Rightarrow> PNone | Some v \<Rightarrow> v)"

definition setdefault :: "string \<Rightarrow> pyval \<Rightarrow> kwargs \<Rightarrow> kwargs" where
  "setdefault k v d = (if has_key k d then d else AList.update k v d)"

definition dict_update :: "kwargs \<Rightarrow> kwargs \<Rightarrow> kwargs" where
  "dict_update d r = fold (\<lambda>(k, v). AList.update k v) r d"

text \<open>Attribute access. Reading a missing attribute raises \<^verbatim>\<open>AttributeError\<close>, and so does
  reading or assigning an attribute of \<^verbatim>\<open>None\<close>, a number, a string, a list or a dict.
  Strategy objects are modelled without an open attribute dictionary.\<close>

fun getattr :: "pyval \<Rightarrow> string \<Rightarrow> error + pyval" where
  "getattr (PObj c attrs) a = (case map_of attrs a of None \<Rightarrow> Inl AttributeError | Some v \<Rightarrow> Inr v)"
| "getattr v a = Inl AttributeError"

fun setattr :: "pyval \<Rightarrow> string \<Rightarrow> pyval \<Rightarrow> error + pyval" where
  "setattr (PObj c attrs) a x = Inr (PObj c (AList.update a x attrs))"
| "setattr v a x = Inl AttributeError"

text \<open>\<^verbatim>\<open>pipeline_index + idx\<close> with \<^verbatim>\<open>idx\<close> the \<^verbatim>\<open>enumerate\<close> counter: defined on integers
  (and on booleans, a subclass of \<^verbatim>\<open>int\<close>); \<^verbatim>\<open>TypeError\<close> on every other value of the
  model.\<close>

fun py_add :: "pyval \<Rightarrow> nat \<Rightarrow> error + pyval" where
  "py_add (PInt i) n = Inr (PInt (i + int n))"
| "py_add (PBool b) n = Inr (PInt ((if b then 1 else 0) + int n))"
| "py_add v n = Inl TypeError"

section \<open>The backend and its collaborators\<close>

text \<open>\<^verbatim>\<open>class BaseAuth\<close>: the class attribute \<^verbatim>\<open>name\<close> and the instance attributes set by
  \<^verbatim>\<open>__init__\<close>. \<^verbatim>\<open>self.strategy\<close> is \<^verbatim>\<open>None\<close> until a strategy is supplied.\<close>

record backend =
  name :: string
  strategy :: pyval
  redirect_uri :: pyval
  data :: pyval

text \<open>The backend instance as a value stored in a context (\<^verbatim>\<open>self\<close>).\<close>

definition self_value :: "backend \<Rightarrow> pyval" where
  "self_value b = PObj ''BaseAuth''
     [(''name'', PStr (name b)), (''strategy'', strategy b),
      (''redirect_uri'', redirect_uri b), (''data'', data b)]"

text \<open>A pipeline step is called as \<^verbatim>\<open>func(*args, **out)\<close>; it returns a value or raises.
  \<^verbatim>\<open>module_member\<close> (of \<^verbatim>\<open>social.utils\<close>) resolves a step address to the step; it is a
  parameter of the executor, and an address it does not resolve raises.\<close>

type_synonym step = "pyval list \<Rightarrow> kwargs \<Rightarrow> error + pyval"

type_synonym resolver = "string \<Rightarrow> step option"

text \<open>What the executor does to the outside world, in order: each step invocation with
  the arguments it received, and the call of \<^verbatim>\<open>strategy.clean_partial_pipeline()\<close>.\<close>

datatype event =
    Invoked string "pyval list" kwargs
  | CleanPartialPipeline

fun invoked_names :: "event list \<Rightarrow> string list" where
  "invoked_names [] = []"
| "invoked_names (Invoked nm args out # evs) = nm # invoked_names evs"
| "invoked_names (CleanPartialPipeline # evs) = invoked_names evs"

section \<open>The pipeline executor\<close>

text \<open>Lines 104--107 of \<^verbatim>\<open>run_pipeline\<close>:
  \<^verbatim>\<open>
  out = kwargs.copy()
  out.setdefault('strategy', self.strategy)
  out.setdefault('backend', out.pop(self.name, None) or self)
  out.setdefault('request', self.strategy.request)
  \<close>
  The argument \<^verbatim>\<open>out.pop(self.name, None)\<close> is evaluated before \<^verbatim>\<open>setdefault\<close> looks
  at the key, and \<^verbatim>\<open>self.strategy.request\<close> is evaluated whether or not \<^verbatim>\<open>request\<close> is
  present: it raises when \<^verbatim>\<open>self.strategy\<close> is not a strategy.\<close>

definition init_context :: "backend \<Rightarrow> kwargs \<Rightarrow> error + kwargs" where
  "init_context b kwargs =
     (let out1 = setdefault ''strategy'' (strategy b) kwargs;
          popped = dict_get out1 (name b);
          out2 = AList.delete (name b) out1;
          out3 = setdefault ''backend'' (if truthy popped then popped else self_value b) out2
      in case strategy b of
           PStrategy s \<Rightarrow> Inr (setdefault ''request'' (request s) out3)
         | _ \<Rightarrow> Inl AttributeError)"

text \<open>The loop, lines 109--115. The result is \<open>Inl e\<close> when something raised,
  \<open>Inr (Inl v)\<close> when a step's result \<open>v\<close> was returned from inside the loop, and
  \<open>Inr (Inr out)\<close> when the loop ran to its end with context \<open>out\<close>.\<close>

fun run_steps :: "resolver \<Rightarrow> string list \<Rightarrow> pyval \<Rightarrow> nat \<Rightarrow> pyval list \<Rightarrow> kwargs
    \<Rightarrow> (error + (pyval + kwargs)) \<times> event list" where
  "run_steps module_member [] pipeline_index idx args out = (Inr (Inr out), [])"
| "run_steps module_member (nm # rest) pipeline_index idx args out =
     (case py_add pipeline_index idx of
        Inl e \<Rightarrow> (Inl e, [])
      | Inr i \<Rightarrow>
         (let out1 = AList.update ''pipeline_index'' i out in
          case module_member nm of
            None \<Rightarrow> (Inl ResolutionError, [])
          | Some func \<Rightarrow>
             (case func args out1 of
                Inl e \<Rightarrow> (Inl e, [Invoked nm args out1])
              | Inr r \<Rightarrow>
                 (let result = (if truthy r then r else PDict []) in
                  case result of
                    PDict d \<Rightarrow>
                      (let (res, evs) = run_steps module_member rest pipeline_index (Suc idx) args
                                          (dict_update out1 d)
                       in (res, Invoked nm args out1 # evs))
                  | _ \<Rightarrow> (Inr (Inl result), [Invoked nm args out1])))))"

text \<open>\<^verbatim>\<open>run_pipeline(self, pipeline, pipeline_index=0, *args, **kwargs)\<close>. Python binds
  \<^verbatim>\<open>pipeline_index\<close> to the named parameter, so \<^verbatim>\<open>kwargs\<close> never holds that key on
  entry.\<close>

definition run_pipeline :: "resolver \<Rightarrow> backend \<Rightarrow> string list \<Rightarrow> pyval \<Rightarrow> pyval list \<Rightarrow> kwargs
    \<Rightarrow> (error + pyval) \<times> event list" where
  "run_pipeline module_member b pipeline_names pipeline_index args kwargs =
     (case init_context b kwargs of
        Inl e \<Rightarrow> (Inl e, [])
      | Inr out \<Rightarrow>
         (case run_steps module_member pipeline_names pipeline_index 0 args out of
            (Inl e, evs) \<Rightarrow> (Inl e, evs)
          | (Inr (Inl result), evs) \<Rightarrow> (Inr result, evs)
          | (Inr (Inr out'), evs) \<Rightarrow> (Inr (PDict out'), evs @ [CleanPartialPipeline])))"

text \<open>\<^verbatim>\<open>pipeline(self, pipeline, pipeline_index=0, *args, **kwargs)\<close>, lines 85--93: the
  result of the executor is returned as it is unless it is a dict; of a dict, the
  \<^verbatim>\<open>user\<close> entry is returned (\<^verbatim>\<open>None\<close> when there is none), annotated when it is true.\<close>

definition pipeline :: "resolver \<Rightarrow> backend \<Rightarrow> string list \<Rightarrow> pyval \<Rightarrow> pyval list \<Rightarrow> kwargs
    \<Rightarrow> (error + pyval) \<times> event list" where
  "pipeline module_member b pipeline_names pipeline_index args kwargs =
     (case run_pipeline module_member b pipeline_names pipeline_index args kwargs of
        (Inl e, evs) \<Rightarrow> (Inl e, evs)
      | (Inr out, evs) \<Rightarrow>
         (case out of
            PDict d \<Rightarrow>
              (let user = dict_get d ''user'' in
               if truthy user then
                 (case setattr user ''social_user'' (dict_get d ''social'') of
                    Inl e \<Rightarrow> (Inl e, evs)
                  | Inr user1 \<Rightarrow>
                     (case setattr user1 ''is_new'' (dict_get d ''is_new'') of
                        Inl e \<Rightarrow> (Inl e, evs)
                      | Inr user2 \<Rightarrow> (Inr user2, evs)))
               else (Inr user, evs))
          | _ \<Rightarrow> (Inr out, evs)))"

section \<open>The authenticate entry point\<close>

text \<open>The condition of lines 72--73, evaluated left to right:
  \<^verbatim>\<open>'backend' not in kwargs or kwargs['backend'].name != self.name or
   'strategy' not in kwargs or 'response' not in kwargs\<close>.
  \<open>Inr True\<close> means the call is for this backend; reading \<^verbatim>\<open>.name\<close> may raise.\<close>

definition authenticate_checks :: "backend \<Rightarrow> kwargs \<Rightarrow> error + bool" where
  "authenticate_checks b kwargs =
     (if \<not> has_key ''backend'' kwargs then Inr False
      else case getattr (dict_get kwargs ''backend'') ''name'' of
             Inl e \<Rightarrow> Inl e
           | Inr n \<Rightarrow>
              Inr (\<not> (n \<noteq> PStr (name b) \<or> \<not> has_key ''strategy'' kwargs
                       \<or> \<not> has_key ''response'' kwargs)))"

text \<open>\<^verbatim>\<open>pipeline[i:]\<close> on a list: an integer (negative ones count from the end), a
  boolean or \<^verbatim>\<open>None\<close> is a slice index; any other value of the model raises.\<close>

fun slice_from :: "'a list \<Rightarrow> pyval \<Rightarrow> error + 'a list" where
  "slice_from xs (PInt i) =
     Inr (if i < 0 then drop (nat (int (length xs) + i)) xs else drop (nat i) xs)"
| "slice_from xs (PBool b) = Inr (drop (if b then 1 else 0) xs)"
| "slice_from xs PNone = Inr xs"
| "slice_from xs v = Inl TypeError"

text \<open>The call \<^verbatim>\<open>self.pipeline(pipeline, *args, **kwargs)\<close> against the signature
  \<^verbatim>\<open>(self, pipeline, pipeline_index=0, *args, **kwargs)\<close>: the first extra positional
  argument, if any, becomes \<^verbatim>\<open>pipeline_index\<close>; otherwise the keyword of that name does,
  and leaves \<^verbatim>\<open>kwargs\<close>; a parameter given twice is a \<^verbatim>\<open>TypeError\<close>. (A key \<^verbatim>\<open>self\<close>
  cannot reach this point: the call of \<^verbatim>\<open>authenticate\<close> itself would have failed.)\<close>

definition bind_call :: "pyval list \<Rightarrow> kwargs \<Rightarrow> error + (pyval \<times> pyval list \<times> kwargs)" where
  "bind_call args kwargs =
     (if has_key ''pipeline'' kwargs then Inl TypeError
      else case args of
             [] \<Rightarrow>
               Inr (if has_key ''pipeline_index'' kwargs then dict_get kwargs ''pipeline_index''
                    else PInt 0,
                    [], AList.delete ''pipeline_index'' kwargs)
           | a # rest \<Rightarrow>
               if has_key ''pipeline_index'' kwargs then Inl TypeError
               else Inr (a, rest, kwargs))"

text \<open>Lines 76--83 up to the call of \<^verbatim>\<open>self.pipeline\<close>: the updated backend, the
  effective step sequence, and the bound \<^verbatim>\<open>pipeline_index\<close>, \<^verbatim>\<open>args\<close> and \<^verbatim>\<open>kwargs\<close>.
  \<^verbatim>\<open>request_data()\<close> and \<^verbatim>\<open>get_pipeline()\<close> raise when \<^verbatim>\<open>self.strategy\<close> is not a strategy.\<close>

definition authenticate_setup :: "backend \<Rightarrow> pyval list \<Rightarrow> kwargs
    \<Rightarrow> error + (backend \<times> string list \<times> pyval \<times> pyval list \<times> kwargs)" where
  "authenticate_setup b args kwargs =
     (let strategy' = (if truthy (strategy b) then strategy b else dict_get kwargs ''strategy'');
          redirect_uri' = (if truthy (redirect_uri b) then redirect_uri b
                           else dict_get kwargs ''redirect_uri'')
      in case strategy' of
           PStrategy s \<Rightarrow>
             (let b' = b\<lparr>strategy := strategy', redirect_uri := redirect_uri',
                          data := request_data s\<rparr>;
                  kwargs1 = setdefault ''is_new'' (PBool False) kwargs
              in case (if has_key ''pipeline_index'' kwargs1
                       then slice_from (get_pipeline s) (dict_get kwargs1 ''pipeline_index'')
                       else Inr (get_pipeline s)) of
                   Inl e \<Rightarrow> Inl e
                 | Inr pipeline_names \<Rightarrow>
                    (case bind_call args kwargs1 of
                       Inl e \<Rightarrow> Inl e
                     | Inr (pipeline_index, args', kwargs') \<Rightarrow>
                         Inr (b', pipeline_names, pipeline_index, args', kwargs')))
         | _ \<Rightarrow> Inl AttributeError)"

text \<open>\<^verbatim>\<open>authenticate(self, *args, **kwargs)\<close>; \<open>PNone\<close> is the neutral non-match.\<close>

definition authenticate :: "resolver \<Rightarrow> backend \<Rightarrow> pyval list \<Rightarrow> kwargs
    \<Rightarrow> (error + pyval) \<times> event list" where
  "authenticate module_member b args kwargs =
     (case authenticate_checks b kwargs of
        Inl e \<Rightarrow> (Inl e, [])
      | Inr False \<Rightarrow> (Inr PNone, [])
      | Inr True \<Rightarrow>
         (case authenticate_setup b args kwargs of
            Inl e \<Rightarrow> (Inl e, [])
          | Inr (b', pipeline_names, pipeline_index, args', kwargs') \<Rightarrow>
              pipeline module_member b' pipeline_names pipeline_index args' kwargs'))"

section \<open>Settings and filtering helpers\<close>

text \<open>Modelled from the spec: \<^verbatim>\<open>setting_name\<close> of \<^verbatim>\<open>social.utils\<close> is not among the
  sources. The spec gives the provider-namespaced key as \<^verbatim>\<open><PROVIDER_NAME>_<NAME>\<close>,
  \<^verbatim>\<open>FOO_X\<close> for the backend \<^verbatim>\<open>foo\<close> and the setting \<^verbatim>\<open>X\<close>.\<close>

definition to_upper :: "char \<Rightarrow> char" where
  "to_upper c =
     (case map_of (zip ''abcdefghijklmnopqrstuvwxyz'' ''ABCDEFGHIJKLMNOPQRSTUVWXYZ'') c of
        None \<Rightarrow> c
      | Some u \<Rightarrow> u)"

definition setting_name :: "string \<Rightarrow> string \<Rightarrow> string" where
  "setting_name backend_name nm = map to_upper backend_name @ ''_'' @ nm"

text \<open>Modelled from the spec: \<^verbatim>\<open>strategy.setting(name, default)\<close> belongs to the external
  configuration collaborator; it returns the stored value, or the default it was given
  when nothing is stored under the name. \<open>None\<close> stands for that default coming back.\<close>

definition strategy_setting :: "pyval strategy \<Rightarrow> string \<Rightarrow> pyval option" where
  "strategy_setting s nm = map_of (settings s) nm"

text \<open>\<^verbatim>\<open>setting(self, name, default=None)\<close>, lines 35--42. The default handed to the
  strategy is the fresh sentinel \<^verbatim>\<open>_default = object()\<close>, which no stored value equals,
  so \<^verbatim>\<open>value != _default\<close> holds exactly when something is stored.\<close>

fun setting_loop :: "pyval strategy \<Rightarrow> string list \<Rightarrow> pyval \<Rightarrow> pyval" where
  "setting_loop s [] dflt = dflt"
| "setting_loop s (nm # nms) dflt =
     (case strategy_setting s nm of
        Some v \<Rightarrow> v
      | None \<Rightarrow> setting_loop s nms dflt)"

definition setting :: "backend \<Rightarrow> string \<Rightarrow> pyval \<Rightarrow> error + pyval" where
  "setting b nm dflt =
     (case strategy b of
        PStrategy s \<Rightarrow> Inr (setting_loop s [setting_name (name b) nm, nm] dflt)
      | _ \<Rightarrow> Inl AttributeError)"

text \<open>\<^verbatim>\<open>s.split(sep, 1)\<close> and list indexing.\<close>

definition split_once :: "char \<Rightarrow> string \<Rightarrow> string list" where
  "split_once sep s =
     (if sep \<in> set s
      then [takeWhile (\<lambda>c. c \<noteq> sep) s, tl (dropWhile (\<lambda>c. c \<noteq> sep) s)]
      else [s])"

definition list_index :: "'a list \<Rightarrow> nat \<Rightarrow> error + 'a" where
  "list_index xs i = (if i < length xs then Inr (xs ! i) else Inl IndexError)"

text \<open>\<^verbatim>\<open>e in c\<close> for a string \<^verbatim>\<open>e\<close>: membership in a list, substring of a string, key of
  a dict; the other values of the model are not containers.\<close>

fun str_in :: "string \<Rightarrow> pyval \<Rightarrow> error + bool" where
  "str_in e (PList xs) = Inr (PStr e \<in> set xs)"
| "str_in e (PStr s) = Inr (sublist e s)"
| "str_in e (PDict d) = Inr (has_key e d)"
| "str_in e v = Inl TypeError"

text \<open>\<^verbatim>\<open>auth_allowed(self, response, details)\<close>, lines 123--133. \<^verbatim>\<open>email.split\<close> exists on
  strings only, and \<^verbatim>\<open>a or b\<close> does not evaluate \<^verbatim>\<open>b\<close> when \<^verbatim>\<open>a\<close> is true.\<close>

definition auth_allowed :: "backend \<Rightarrow> pyval \<Rightarrow> kwargs \<Rightarrow> error + bool" where
  "auth_allowed b response details =
     (case setting b ''WHITELISTED_EMAILS'' (PList []) of
        Inl err \<Rightarrow> Inl err
      | Inr emails \<Rightarrow>
         (case setting b ''WHITELISTED_DOMAINS'' (PList []) of
            Inl err \<Rightarrow> Inl err
          | Inr domains \<Rightarrow>
             (let email = dict_get details ''email'' in
              if truthy email \<and> (truthy emails \<or> truthy domains) then
                (case email of
                   PStr e \<Rightarrow>
                     (case list_index (split_once CHR ''@'' e) 1 of
                        Inl err \<Rightarrow> Inl err
                      | Inr domain \<Rightarrow>
                         (case str_in e emails of
                            Inl err \<Rightarrow> Inl err
                          | Inr True \<Rightarrow> Inr True
                          | Inr False \<Rightarrow> str_in domain domains))
                 | _ \<Rightarrow> Inl AttributeError)
              else Inr True)))"

section \<open>Comparing results\<close>

text \<open>Python's \<^verbatim>\<open>==\<close> on dictionaries disregards the order of insertion: two dictionaries
  are equal when they have the same keys with the same values. Results of the executor
  are compared accordingly: two contexts as dictionaries, anything else literally.\<close>

definition dict_eq :: "kwargs \<Rightarrow> kwargs \<Rightarrow> bool" where
  "dict_eq d d' = (\<forall>k \<in> set (map fst d @ map fst d'). map_of d k = map_of d' k)"

fun same_loop_result :: "error + (pyval + kwargs) \<Rightarrow> error + (pyval + kwargs) \<Rightarrow> bool" where
  "same_loop_result (Inr (Inr d)) (Inr (Inr d')) = dict_eq d d'"
| "same_loop_result r r' = (r = r')"

fun same_result :: "error + pyval \<Rightarrow> error + pyval \<Rightarrow> bool" where
  "same_result (Inr (PDict d)) (Inr (PDict d')) = dict_eq d d'"
| "same_result r r' = (r = r')"

section \<open>Concrete configurations\<close>

text \<open>A strategy with no settings whose configured pipeline is
  \<^verbatim>\<open>['associate_user', 'load_user']\<close>, and a backend named \<^verbatim>\<open>foo\<close> bound to it.\<close>

definition example_strategy :: "pyval strategy" where
  "example_strategy =
     Strategy [] (PStr ''request'') (PDict []) [''associate_user'', ''load_user'']"

definition example_backend :: backend where
  "example_backend =
     \<lparr>name = ''foo'', strategy = PStrategy example_strategy, redirect_uri = PNone,
      data = PDict []\<rparr>"

text \<open>Steps: one that contributes nothing, one that returns the non-mapping value \<^verbatim>\<open>0\<close>,
  one that returns a redirect string, two that contribute one key each, one that
  contributes the key \<^verbatim>\<open>foo\<close>, and one that reports the entry \<^verbatim>\<open>foo\<close> it received.\<close>

definition noop_step :: step where
  "noop_step args out = Inr PNone"

definition zero_step :: step where
  "zero_step args out = Inr (PInt 0)"

definition redirect_step :: step where
  "redirect_step args out = Inr (PStr ''/consent'')"

definition associate_user_step :: step where
  "associate_user_step args out = Inr (PDict [(''social'', PStr ''link'')])"

definition load_user_step :: step where
  "load_user_step args out = Inr (PDict [(''user'', PObj ''user'' [])])"

definition set_foo_step :: step where
  "set_foo_step args out = Inr (PDict [(''foo'', PInt 1)])"

definition get_foo_step :: step where
  "get_foo_step args out = Inr (PDict [(''seen'', dict_get out ''foo'')])"

definition example_steps :: resolver where
  "example_steps =
     map_of
       [(''noop'', noop_step),
        (''zero'', zero_step),
        (''redirect'', redirect_step),
        (''associate_user'', associate_user_step),
        (''load_user'', load_user_step),
        (''set_foo'', set_foo_step),
        (''get_foo'', get_foo_step)]"

text \<open>The context the executor builds for \<open>example_backend\<close> from empty keyword
  arguments.\<close>

definition example_context :: kwargs where
  "example_context =
     [(''strategy'', PStrategy example_strategy),
      (''backend'', self_value example_backend),
      (''request'', PStr ''request'')]"

text \<open>A backend named \<^verbatim>\<open>foo\<close> whose strategy holds the given settings.\<close>

definition configured_backend :: "kwargs \<Rightarrow> backend" where
  "configured_backend cfg =
     \<lparr>name = ''foo'', strategy = PStrategy (Strategy cfg (PStr ''request'') (PDict []) []),
      redirect_uri = PNone, data = PDict []\<rparr>"

text \<open>A backend named \<^verbatim>\<open>foo\<close> constructed without a strategy, the same backend once
  \<^verbatim>\<open>authenticate\<close> has bound a strategy with the given pipeline, and the keyword arguments
  of a call of \<^verbatim>\<open>authenticate\<close> that names the backend and supplies that strategy and a
  response.\<close>

definition unbound_backend :: backend where
  "unbound_backend =
     \<lparr>name = ''foo'', strategy = PNone, redirect_uri = PNone, data = PDict []\<rparr>"

definition bound_backend :: "string list \<Rightarrow> backend" where
  "bound_backend pipeline_names =
     \<lparr>name = ''foo'',
      strategy = PStrategy (Strategy [] (PStr ''request'') (PDict []) pipeline_names),
      redirect_uri = PNone, data = PDict []\<rparr>"

definition auth_kwargs :: "string list \<Rightarrow> kwargs" where
  "auth_kwargs pipeline_names =
     [(''backend'', self_value (bound_backend pipeline_names)),
      (''strategy'', PStrategy (Strategy [] (PStr ''request'') (PDict []) pipeline_names)),
      (''response'', PDict [(''id'', PInt 1)])]"

section \<open>Facts about dictionaries and strings\<close>

lemmas dict_defs = setdefault_def has_key_def dict_get_def dict_update_def

lemma dict_update_empty: "dict_update d [] = d"
  by (simp add: dict_update_def)

lemma takeWhile_until:
  "c \<notin> set xs \<Longrightarrow> takeWhile (\<lambda>x. x \<noteq> c) (xs @ c # ys) = xs"
  by (induction xs) auto

lemma dropWhile_until:
  "c \<notin> set xs \<Longrightarrow> dropWhile (\<lambda>x. x \<noteq> c) (xs @ c # ys) = c # ys"
  by (induction xs) auto

lemma split_once_at:
  assumes "e = local_part @ CHR ''@'' # domain_part" and "CHR ''@'' \<notin> set local_part"
  shows "split_once CHR ''@'' e = [local_part, domain_part]"
proof -
  have t: "takeWhile (\<lambda>c. c \<noteq> CHR ''@'') (local_part @ CHR ''@'' # domain_part) = local_part"
    using assms(2) by (rule takeWhile_until)
  have d: "dropWhile (\<lambda>c. c \<noteq> CHR ''@'') (local_part @ CHR ''@'' # domain_part)
             = CHR ''@'' # domain_part"
    using assms(2) by (rule dropWhile_until)
  show ?thesis
    unfolding split_once_def assms(1) t d by simp
qed

lemma split_once_length:
  "length (split_once sep s) = (if sep \<in> set s then 2 else 1)"
  by (simp add: split_once_def)

lemma map_of_dict_update_absent:
  "map_of d k = None \<Longrightarrow> map_of (dict_update out d) k = map_of out k"
proof (induction d arbitrary: out)
  case Nil
  show ?case by (simp add: dict_update_def)
next
  case (Cons kv d)
  obtain k' v where kv: "kv = (k', v)" by (cases kv)
  from Cons.prems kv have k: "k \<noteq> k'" and d: "map_of d k = None"
    by (auto split: if_splits)
  have "map_of (dict_update (AList.update k' v out) d) k = map_of (AList.update k' v out) k"
    using d by (rule Cons.IH)
  then show ?case
    using k by (simp add: dict_update_def kv update_conv')
qed

lemma map_of_setdefault:
  "map_of (setdefault k v d) k' =
     (if k' = k \<and> map_of d k = None then Some v else map_of d k')"
  by (simp add: setdefault_def has_key_def update_conv')

lemma dict_eq_iff: "dict_eq d d' \<longleftrightarrow> map_of d = map_of d'"
proof
  assume eq: "dict_eq d d'"
  show "map_of d = map_of d'"
  proof
    fix k
    show "map_of d k = map_of d' k"
    proof (cases "k \<in> fst ` set d \<union> fst ` set d'")
      case True
      with eq show ?thesis by (auto simp add: dict_eq_def)
    next
      case False
      then have "map_of d k = None" "map_of d' k = None"
        by (simp_all add: map_of_eq_None_iff)
      then show ?thesis by simp
    qed
  qed
next
  assume "map_of d = map_of d'"
  then show "dict_eq d d'" by (simp add: dict_eq_def)
qed

lemma map_of_dict_update_cong:
  "map_of out = map_of out' \<Longrightarrow> map_of (dict_update out d) = map_of (dict_update out' d)"
proof (induction d arbitrary: out out')
  case Nil
  then show ?case by (simp add: dict_update_def)
next
  case (Cons kv d)
  obtain k v where kv: "kv = (k, v)" by (cases kv)
  have "map_of (AList.update k v out) = map_of (AList.update k v out')"
    using Cons.prems by (simp add: update_conv')
  then have "map_of (dict_update (AList.update k v out) d)
           = map_of (dict_update (AList.update k v out') d)"
    by (rule Cons.IH)
  then show ?case by (simp add: dict_update_def kv)
qed

lemma map_of_dict_update_present:
  "map_of out k \<noteq> None \<Longrightarrow> map_of (dict_update out d) k \<noteq> None"
proof (induction d arbitrary: out)
  case Nil
  then show ?case by (simp add: dict_update_def)
next
  case (Cons kv d)
  obtain k' v where kv: "kv = (k', v)" by (cases kv)
  have "map_of (AList.update k' v out) k \<noteq> None"
    using Cons.prems by (simp add: update_conv')
  then have "map_of (dict_update (AList.update k' v out) d) k \<noteq> None"
    by (rule Cons.IH)
  then show ?case by (simp add: dict_update_def kv)
qed

section \<open>Facts about the executor\<close>

lemma invoked_names_append:
  "invoked_names (evs @ evs') = invoked_names evs @ invoked_names evs'"
  by (induction evs rule: invoked_names.induct) simp_all

lemma run_steps_append:
  "run_steps mm (pre @ post) p idx args out =
     (case run_steps mm pre p idx args out of
        (Inr (Inr c1), evs1) \<Rightarrow>
          (case run_steps mm post p (idx + length pre) args c1 of
             (r, evs2) \<Rightarrow> (r, evs1 @ evs2))
      | other \<Rightarrow> other)"
proof (induction pre arbitrary: idx out)
  case Nil
  show ?case by (simp split: prod.splits)
next
  case (Cons nm pre)
  show ?case
    by (simp add: Cons.IH Let_def split: sum.splits option.splits pyval.splits prod.splits)
qed

lemma run_steps_completed_names:
  "run_steps mm pl p idx args out = (Inr (Inr c), evs) \<Longrightarrow> invoked_names evs = pl"
proof (induction pl arbitrary: idx out evs)
  case Nil
  then show ?case by simp
next
  case (Cons nm pl)
  then show ?case
    by (auto simp: Let_def split: sum.splits option.splits pyval.splits prod.splits if_splits)
qed

lemma run_steps_no_clean:
  "run_steps mm pl p idx args out = (r, evs) \<Longrightarrow> CleanPartialPipeline \<notin> set evs"
proof (induction pl arbitrary: idx out r evs)
  case Nil
  then show ?case by auto
next
  case (Cons nm pl)
  then show ?case
    by (auto simp: Let_def split: sum.splits option.splits pyval.splits prod.splits if_splits)
qed

lemma run_steps_short_circuit:
  assumes "py_add p idx = Inr i" and "mm nm = Some func"
    and "func args (AList.update ''pipeline_index'' i out) = Inr v"
    and "truthy v" and "\<not> is_dict v"
  shows "run_steps mm (nm # post) p idx args out =
           (Inr (Inl v), [Invoked nm args (AList.update ''pipeline_index'' i out)])"
  using assms by (cases v) (simp_all add: Let_def)

lemma run_pipeline_events:
  assumes "init_context b kwargs = Inr out0"
    and "run_steps mm pl pidx 0 args out0 = (r, evs)"
  shows "snd (run_pipeline mm b pl pidx args kwargs) =
           (case r of Inr (Inr out') \<Rightarrow> evs @ [CleanPartialPipeline] | _ \<Rightarrow> evs)"
  using assms by (simp add: run_pipeline_def split: sum.splits)

lemma run_pipeline_init_raises:
  "init_context b kwargs = Inl e \<Longrightarrow> run_pipeline mm b pl pidx args kwargs = (Inl e, [])"
  by (simp add: run_pipeline_def)

lemma run_steps_all_empty:
  assumes "\<forall>j<length pl. \<exists>func v. mm (pl ! j) = Some func
             \<and> func args (AList.update ''pipeline_index'' (PInt (p + int (idx + j))) out) = Inr v
             \<and> \<not> truthy v"
    and "\<forall>x. AList.update ''pipeline_index'' x out' = AList.update ''pipeline_index'' x out"
  shows "fst (run_steps mm pl (PInt p) idx args out') =
           Inr (Inr (if pl = [] then out'
                     else AList.update ''pipeline_index'' (PInt (p + int (idx + length pl) - 1)) out))"
  using assms
proof (induction pl arbitrary: idx out')
  case Nil
  show ?case by simp
next
  case (Cons nm pl)
  let ?out1 = "AList.update ''pipeline_index'' (PInt (p + int idx)) out"
  from Cons.prems(1) have "\<exists>func v. mm ((nm # pl) ! 0) = Some func
      \<and> func args (AList.update ''pipeline_index'' (PInt (p + int (idx + 0))) out) = Inr v
      \<and> \<not> truthy v"
    by blast
  then obtain func v where f: "mm nm = Some func" "func args ?out1 = Inr v" "\<not> truthy v"
    by auto
  have rest: "\<forall>j<length pl. \<exists>func v. mm (pl ! j) = Some func
             \<and> func args (AList.update ''pipeline_index'' (PInt (p + int (Suc idx + j))) out) = Inr v
             \<and> \<not> truthy v"
  proof (intro allI impI)
    fix j assume "j < length pl"
    then have "Suc j < length (nm # pl)" by simp
    with Cons.prems(1) have "\<exists>func v. mm ((nm # pl) ! Suc j) = Some func
      \<and> func args (AList.update ''pipeline_index'' (PInt (p + int (idx + Suc j))) out) = Inr v
      \<and> \<not> truthy v" by blast
    then show "\<exists>func v. mm (pl ! j) = Some func
             \<and> func args (AList.update ''pipeline_index'' (PInt (p + int (Suc idx + j))) out) = Inr v
             \<and> \<not> truthy v" by simp
  qed
  have same: "\<forall>x. AList.update ''pipeline_index'' x ?out1 = AList.update ''pipeline_index'' x out"
    by simp
  have out1: "AList.update ''pipeline_index'' (PInt (p + int idx)) out' = ?out1"
    using Cons.prems(2) by simp
  have IH: "fst (run_steps mm pl (PInt p) (Suc idx) args ?out1) =
           Inr (Inr (if pl = [] then ?out1
                     else AList.update ''pipeline_index'' (PInt (p + int (Suc idx + length pl) - 1)) out))"
    using Cons.IH [OF rest same] .
  have unfold: "fst (run_steps mm (nm # pl) (PInt p) idx args out') =
      fst (run_steps mm pl (PInt p) (Suc idx) args ?out1)"
    using f by (simp add: out1 Let_def dict_update_empty split: prod.splits)
  show ?case
    unfolding unfold IH by simp
qed

lemma fst_run_pipeline:
  "init_context b kwargs = Inr out0 \<Longrightarrow>
   fst (run_pipeline mm b pl pidx args kwargs) =
     (case fst (run_steps mm pl pidx 0 args out0) of
        Inl e \<Rightarrow> Inl e
      | Inr (Inl v) \<Rightarrow> Inr v
      | Inr (Inr out') \<Rightarrow> Inr (PDict out'))"
  by (cases "run_steps mm pl pidx 0 args out0") (simp add: run_pipeline_def split: sum.splits)

lemma authenticate_passes:
  assumes "authenticate_checks b kwargs = Inr True"
    and "authenticate_setup b args kwargs = Inr (b', pl, pidx, args', kwargs')"
  shows "authenticate mm b args kwargs = pipeline mm b' pl pidx args' kwargs'"
  using assms by (simp add: authenticate_def)

lemma same_loop_result_refl: "same_loop_result r r"
proof (cases r)
  case (Inl e)
  then show ?thesis by simp
next
  case (Inr w)
  then show ?thesis by (cases w) (simp_all add: dict_eq_iff)
qed

lemma run_steps_Cons:
  assumes "py_add p idx = Inr i" and "mm nm = Some func"
    and "func args (AList.update ''pipeline_index'' i out) = Inr v"
  shows "run_steps mm (nm # pl) p idx args out =
     (if truthy v \<and> \<not> is_dict v
      then (Inr (Inl v), [Invoked nm args (AList.update ''pipeline_index'' i out)])
      else (fst (run_steps mm pl p (Suc idx) args
                  (dict_update (AList.update ''pipeline_index'' i out)
                     (case v of PDict d \<Rightarrow> d | _ \<Rightarrow> []))),
            Invoked nm args (AList.update ''pipeline_index'' i out)
              # snd (run_steps mm pl p (Suc idx) args
                  (dict_update (AList.update ''pipeline_index'' i out)
                     (case v of PDict d \<Rightarrow> d | _ \<Rightarrow> [])))))"
  using assms by (cases v) (simp_all add: Let_def split: prod.splits)

lemma run_steps_Cons_raises:
  assumes "py_add p idx = Inr i" and "mm nm = Some func"
    and "func args (AList.update ''pipeline_index'' i out) = Inl e"
  shows "fst (run_steps mm (nm # pl) p idx args out) = Inl e"
  using assms by simp

lemma run_steps_cong:
  assumes pure: "\<forall>nm func. mm nm = Some func \<longrightarrow>
            (\<forall>a c c'. map_of c = map_of c' \<longrightarrow> func a c = func a c')"
    and "map_of out = map_of out'"
    and "\<forall>j. py_add p (idx + j) = py_add p' (idx' + j)"
  shows "same_loop_result (fst (run_steps mm pl p idx args out))
           (fst (run_steps mm pl p' idx' args out'))"
  using assms(2,3)
proof (induction pl arbitrary: idx idx' out out')
  case Nil
  then show ?case by (simp add: dict_eq_iff)
next
  case (Cons nm pl)
  from Cons.prems(2) have add: "py_add p idx = py_add p' idx'"
    by (metis add.right_neutral)
  have next_add: "\<forall>j. py_add p (Suc idx + j) = py_add p' (Suc idx' + j)"
  proof
    fix j
    from Cons.prems(2) have "py_add p (idx + Suc j) = py_add p' (idx' + Suc j)" by blast
    then show "py_add p (Suc idx + j) = py_add p' (Suc idx' + j)" by simp
  qed
  show ?case
  proof (cases "py_add p idx")
    case (Inl e)
    moreover from Inl add have "py_add p' idx' = Inl e" by simp
    ultimately show ?thesis by simp
  next
    case (Inr i)
    let ?o = "AList.update ''pipeline_index'' i out"
    let ?o' = "AList.update ''pipeline_index'' i out'"
    have i': "py_add p' idx' = Inr i" using Inr add by simp
    have m: "map_of ?o = map_of ?o'"
      using Cons.prems(1) by (simp add: update_conv')
    show ?thesis
    proof (cases "mm nm")
      case None
      with Inr i' show ?thesis by simp
    next
      case (Some func)
      have same: "func args ?o = func args ?o'"
        using pure Some m by blast
      show ?thesis
      proof (cases "func args ?o")
        case (Inl e)
        have "fst (run_steps mm (nm # pl) p idx args out) = Inl e"
          using Inr Some Inl by (rule run_steps_Cons_raises)
        moreover have "fst (run_steps mm (nm # pl) p' idx' args out') = Inl e"
          using i' Some Inl [unfolded same] by (rule run_steps_Cons_raises)
        ultimately show ?thesis by simp
      next
        case res: (Inr v)
        let ?d = "case v of PDict d \<Rightarrow> d | _ \<Rightarrow> []"
        have l: "run_steps mm (nm # pl) p idx args out =
            (if truthy v \<and> \<not> is_dict v then (Inr (Inl v), [Invoked nm args ?o])
             else (fst (run_steps mm pl p (Suc idx) args (dict_update ?o ?d)),
                   Invoked nm args ?o # snd (run_steps mm pl p (Suc idx) args (dict_update ?o ?d))))"
          using Inr Some res by (rule run_steps_Cons)
        have r: "run_steps mm (nm # pl) p' idx' args out' =
            (if truthy v \<and> \<not> is_dict v then (Inr (Inl v), [Invoked nm args ?o'])
             else (fst (run_steps mm pl p' (Suc idx') args (dict_update ?o' ?d)),
                   Invoked nm args ?o' # snd (run_steps mm pl p' (Suc idx') args (dict_update ?o' ?d))))"
          using i' Some res [unfolded same] by (rule run_steps_Cons)
        have m2: "map_of (dict_update ?o ?d) = map_of (dict_update ?o' ?d)"
          using m by (rule map_of_dict_update_cong)
        have IH: "same_loop_result (fst (run_steps mm pl p (Suc idx) args (dict_update ?o ?d)))
           (fst (run_steps mm pl p' (Suc idx') args (dict_update ?o' ?d)))"
          using m2 next_add by (rule Cons.IH)
        show ?thesis
          unfolding l r using IH by (simp add: same_loop_result_refl)
      qed
    qed
  qed
qed

lemma same_result_refl: "same_result r r"
proof (cases r)
  case (Inl e)
  then show ?thesis by simp
next
  case (Inr v)
  then show ?thesis by (cases v) (simp_all add: dict_eq_iff)
qed

lemma same_result_lift:
  assumes "same_loop_result r r'"
  shows "same_result
           (case r of Inl e \<Rightarrow> Inl e | Inr (Inl v) \<Rightarrow> Inr v | Inr (Inr d) \<Rightarrow> Inr (PDict d))
           (case r' of Inl e \<Rightarrow> Inl e | Inr (Inl v) \<Rightarrow> Inr v | Inr (Inr d) \<Rightarrow> Inr (PDict d))"
proof (cases r)
  case (Inl e)
  with assms have "r' = r" by simp
  then show ?thesis by (simp add: same_result_refl)
next
  case r: (Inr w)
  show ?thesis
  proof (cases w)
    case (Inl v)
    with r assms have "r' = r" by simp
    then show ?thesis by (simp add: same_result_refl)
  next
    case (Inr d)
    show ?thesis
    proof (cases r')
      case (Inl e)
      with r Inr assms show ?thesis by simp
    next
      case r': (Inr w')
      with r Inr assms show ?thesis by (cases w') simp_all
    qed
  qed
qed

lemma fst_run_steps_Cons:
  assumes "py_add p idx = Inr i" and "mm nm = Some func"
    and "func args (AList.update ''pipeline_index'' i out) = Inr v"
  shows "fst (run_steps mm (nm # pl) p idx args out) =
     (if truthy v \<and> \<not> is_dict v then Inr (Inl v)
      else fst (run_steps mm pl p (Suc idx) args
                  (dict_update (AList.update ''pipeline_index'' i out)
                     (case v of PDict d \<Rightarrow> d | _ \<Rightarrow> []))))"
proof -
  have "run_steps mm (nm # pl) p idx args out =
     (if truthy v \<and> \<not> is_dict v
      then (Inr (Inl v), [Invoked nm args (AList.update ''pipeline_index'' i out)])
      else (fst (run_steps mm pl p (Suc idx) args
                  (dict_update (AList.update ''pipeline_index'' i out)
                     (case v of PDict d \<Rightarrow> d | _ \<Rightarrow> []))),
            Invoked nm args (AList.update ''pipeline_index'' i out)
              # snd (run_steps mm pl p (Suc idx) args
                  (dict_update (AList.update ''pipeline_index'' i out)
                     (case v of PDict d \<Rightarrow> d | _ \<Rightarrow> [])))))"
    using assms by (rule run_steps_Cons)
  then show ?thesis by simp
qed

lemma run_steps_keys_kept:
  assumes "fst (run_steps mm pl p idx args out) = Inr (Inr out')" and "map_of out k \<noteq> None"
  shows "map_of out' k \<noteq> None"
  using assms
proof (induction pl arbitrary: idx out)
  case Nil
  then show ?case by simp
next
  case (Cons nm pl)
  show ?case
  proof (cases "py_add p idx")
    case (Inl e)
    with Cons.prems(1) show ?thesis by simp
  next
    case (Inr i)
    let ?o = "AList.update ''pipeline_index'' i out"
    show ?thesis
    proof (cases "mm nm")
      case None
      with Inr Cons.prems(1) show ?thesis by simp
    next
      case (Some func)
      show ?thesis
      proof (cases "func args ?o")
        case (Inl e)
        with Inr Some Cons.prems(1) show ?thesis by simp
      next
        case res: (Inr v)
        let ?d = "case v of PDict d \<Rightarrow> d | _ \<Rightarrow> []"
        have l: "fst (run_steps mm (nm # pl) p idx args out) =
            (if truthy v \<and> \<not> is_dict v then Inr (Inl v)
             else fst (run_steps mm pl p (Suc idx) args (dict_update ?o ?d)))"
          using Inr Some res by (rule fst_run_steps_Cons)
        from Cons.prems(1) have
          rest: "fst (run_steps mm pl p (Suc idx) args (dict_update ?o ?d)) = Inr (Inr out')"
          unfolding l by (simp split: if_splits)
        have "map_of ?o k \<noteq> None"
          using Cons.prems(2) by (simp add: update_conv')
        then have "map_of (dict_update ?o ?d) k \<noteq> None"
          by (rule map_of_dict_update_present)
        with rest show ?thesis by (rule Cons.IH)
      qed
    qed
  qed
qed

lemma run_steps_returned_value:
  assumes "fst (run_steps mm pl p idx args out) = Inr (Inl v)"
  shows "truthy v \<and> \<not> is_dict v"
  using assms
proof (induction pl arbitrary: idx out)
  case Nil
  then show ?case by simp
next
  case (Cons nm pl)
  show ?case
  proof (cases "py_add p idx")
    case (Inl e)
    with Cons.prems(1) show ?thesis by simp
  next
    case (Inr i)
    let ?o = "AList.update ''pipeline_index'' i out"
    show ?thesis
    proof (cases "mm nm")
      case None
      with Inr Cons.prems(1) show ?thesis by simp
    next
      case (Some func)
      show ?thesis
      proof (cases "func args ?o")
        case (Inl e)
        with Inr Some Cons.prems(1) show ?thesis by simp
      next
        case res: (Inr w)
        have l: "fst (run_steps mm (nm # pl) p idx args out) =
            (if truthy w \<and> \<not> is_dict w then Inr (Inl w)
             else fst (run_steps mm pl p (Suc idx) args
                    (dict_update ?o (case w of PDict d \<Rightarrow> d | _ \<Rightarrow> []))))"
          using Inr Some res by (rule fst_run_steps_Cons)
        show ?thesis
        proof (cases "truthy w \<and> \<not> is_dict w")
          case True
          with Cons.prems(1) show ?thesis unfolding l by simp
        next
          case False
          with Cons.prems(1) show ?thesis
            unfolding l by (simp add: Cons.IH)
        qed
      qed
    qed
  qed
qed

lemma run_pipeline_completed:
  assumes "run_pipeline mm b pl pidx args kwargs = (Inr (PDict out1), evs)"
  shows "\<exists>out0. init_context b kwargs = Inr out0
           \<and> fst (run_steps mm pl pidx 0 args out0) = Inr (Inr out1)"
proof (cases "init_context b kwargs")
  case (Inl e)
  with assms show ?thesis by (simp add: run_pipeline_def)
next
  case (Inr out0)
  have f: "fst (run_pipeline mm b pl pidx args kwargs) =
     (case fst (run_steps mm pl pidx 0 args out0) of
        Inl e \<Rightarrow> Inl e
      | Inr (Inl v) \<Rightarrow> Inr v
      | Inr (Inr out') \<Rightarrow> Inr (PDict out'))"
    using Inr by (rule fst_run_pipeline)
  have "fst (run_steps mm pl pidx 0 args out0) = Inr (Inr out1)"
  proof (cases "fst (run_steps mm pl pidx 0 args out0)")
    case (Inl e)
    with f assms show ?thesis by simp
  next
    case r: (Inr w)
    show ?thesis
    proof (cases w)
      case (Inl v)
      with r have "\<not> is_dict v" using run_steps_returned_value by blast
      with f assms r Inl show ?thesis by auto
    next
      case (Inr d)
      with f assms r show ?thesis by simp
    qed
  qed
  with Inr show ?thesis by simp
qed

lemma init_context_keys:
  assumes "init_context b kwargs = Inr out0"
  shows "map_of out0 ''backend'' \<noteq> None \<and> map_of out0 ''request'' \<noteq> None
       \<and> (name b \<noteq> ''strategy'' \<longrightarrow> map_of out0 ''strategy'' \<noteq> None)
       \<and> (\<exists>s. strategy b = PStrategy s)"
  using assms
  by (auto simp add: init_context_def Let_def map_of_setdefault delete_conv'
      split: pyval.splits if_splits)

lemma init_context_seed:
  assumes "strategy b = PStrategy s"
    and "map_of out1 ''backend'' \<noteq> None" and "map_of out1 ''request'' \<noteq> None"
    and "name b \<noteq> ''strategy'' \<longrightarrow> map_of out1 ''strategy'' \<noteq> None"
    and "map_of out1 (name b) = None"
    and "\<forall>k. k \<noteq> ''pipeline_index'' \<longrightarrow> map_of seed k = map_of out1 k"
  shows "\<exists>seed'. init_context b seed = Inr seed'
           \<and> (\<forall>k. k \<noteq> ''pipeline_index'' \<longrightarrow> map_of seed' k = map_of out1 k)"
proof -
  let ?o1 = "setdefault ''strategy'' (strategy b) seed"
  let ?popped = "dict_get ?o1 (name b)"
  let ?o2 = "AList.delete (name b) ?o1"
  let ?o3 = "setdefault ''backend'' (if truthy ?popped then ?popped else self_value b) ?o2"
  let ?o4 = "setdefault ''request'' (request s) ?o3"
  have init: "init_context b seed = Inr ?o4"
    using assms(1) by (simp add: init_context_def Let_def)
  have n: "name b \<noteq> ''backend''" "name b \<noteq> ''request''"
    using assms(2,3,5) by auto
  have s1: "map_of seed ''backend'' = map_of out1 ''backend''"
    "map_of seed ''request'' = map_of out1 ''request''"
    "map_of seed ''strategy'' = map_of out1 ''strategy''"
    using assms(6) by simp_all
  have "map_of ?o4 k = map_of out1 k" if k: "k \<noteq> ''pipeline_index''" for k
  proof (cases "k = name b")
    case True
    then show ?thesis
      using n assms(5) by (simp add: map_of_setdefault delete_conv')
  next
    case False
    have sk: "map_of seed k = map_of out1 k" using assms(6) k by simp
    show ?thesis
      using False n assms(2,3,4) s1 sk
      by (auto simp add: map_of_setdefault delete_conv')
  qed
  with init show ?thesis by blast
qed

lemma run_steps_preset:
  "py_add p idx = Inr i \<Longrightarrow>
   run_steps mm (nm # pl) p idx args (AList.update ''pipeline_index'' i out) =
   run_steps mm (nm # pl) p idx args out"
  by simp

lemma run_steps_key_origin:
  assumes "k \<noteq> ''pipeline_index''"
    and "run_steps mm pl p idx args out = (r, evs)"
    and "j < length evs" and "evs ! j = Invoked nm a c" and "map_of c k \<noteq> None"
  shows "map_of out k \<noteq> None
       \<or> (\<exists>i<j. \<exists>nm' a' c' func d. evs ! i = Invoked nm' a' c' \<and> mm nm' = Some func
              \<and> func a' c' = Inr (PDict d) \<and> map_of d k \<noteq> None)"
  using assms(2-5)
proof (induction pl arbitrary: idx out r evs j)
  case Nil
  then show ?case by simp
next
  case (Cons step_name pl)
  show ?case
  proof (cases "py_add p idx")
    case (Inl e)
    with Cons.prems show ?thesis by simp
  next
    case (Inr i)
    let ?out1 = "AList.update ''pipeline_index'' i out"
    have o1: "map_of ?out1 k = map_of out k"
      using assms(1) by (simp add: update_conv')
    show ?thesis
    proof (cases "mm step_name")
      case None
      with Inr Cons.prems show ?thesis by simp
    next
      case (Some func)
      show ?thesis
      proof (cases "func args ?out1")
        case (Inl e)
        then have "evs = [Invoked step_name args ?out1]"
          using Inr Some Cons.prems(1) by auto
        with Cons.prems(2,3,4) o1 show ?thesis by auto
      next
        case res: (Inr v)
        let ?d = "case v of PDict d \<Rightarrow> d | _ \<Rightarrow> []"
        let ?rest = "run_steps mm pl p (Suc idx) args (dict_update ?out1 ?d)"
        have l: "run_steps mm (step_name # pl) p idx args out =
            (if truthy v \<and> \<not> is_dict v then (Inr (Inl v), [Invoked step_name args ?out1])
             else (fst ?rest, Invoked step_name args ?out1 # snd ?rest))"
          using Inr Some res by (rule run_steps_Cons)
        show ?thesis
        proof (cases "truthy v \<and> \<not> is_dict v")
          case True
          then have "evs = [Invoked step_name args ?out1]"
            using l Cons.prems(1) by simp
          with Cons.prems(2,3,4) o1 show ?thesis by auto
        next
          case False
          then have evs: "evs = Invoked step_name args ?out1 # snd ?rest"
            using l Cons.prems(1) by auto
          show ?thesis
          proof (cases j)
            case 0
            with evs Cons.prems(3,4) o1 show ?thesis by simp
          next
            case (Suc j')
            have run': "?rest = (fst ?rest, snd ?rest)" by simp
            have j': "j' < length (snd ?rest)"
              using Suc evs Cons.prems(2) by simp
            have ev': "snd ?rest ! j' = Invoked nm a c"
              using Suc evs Cons.prems(3) by simp
            from Cons.IH [OF run' j' ev' Cons.prems(4)]
            consider (ctx) "map_of (dict_update ?out1 ?d) k \<noteq> None"
              | (earlier) "\<exists>i<j'. \<exists>nm' a' c' func d. snd ?rest ! i = Invoked nm' a' c'
                  \<and> mm nm' = Some func \<and> func a' c' = Inr (PDict d) \<and> map_of d k \<noteq> None"
              by blast
            then show ?thesis
            proof cases
              case ctx
              show ?thesis
              proof (cases "map_of ?d k = None")
                case True
                then have "map_of (dict_update ?out1 ?d) k = map_of ?out1 k"
                  by (rule map_of_dict_update_absent)
                with ctx o1 show ?thesis by simp
              next
                case contributed: False
                then have "?d \<noteq> []" by auto
                then have v: "v = PDict ?d" by (cases v) simp_all
                have "evs ! 0 = Invoked step_name args ?out1" using evs by simp
                moreover have "func args ?out1 = Inr (PDict ?d)" using res v by simp
                moreover have "0 < j" using Suc by simp
                ultimately show ?thesis using Some contributed by blast
              qed
            next
              case earlier
              then obtain i nm' a' c' func' d where i: "i < j'"
                and e: "snd ?rest ! i = Invoked nm' a' c'" "mm nm' = Some func'"
                  "func' a' c' = Inr (PDict d)" "map_of d k \<noteq> None"
                by blast
              have "Suc i < j" using i Suc by simp
              moreover have "evs ! Suc i = Invoked nm' a' c'" using e(1) evs by simp
              ultimately show ?thesis using e(2,3,4) by blast
            qed
          qed
        qed
      qed
    qed
  qed
qed

lemma run_pipeline_invoked_nth:
  assumes "init_context b kwargs = Inr out0"
    and "j < length (snd (run_pipeline mm b pl pidx args kwargs))"
    and "snd (run_pipeline mm b pl pidx args kwargs) ! j = Invoked nm a c"
  shows "j < length (snd (run_steps mm pl pidx 0 args out0))
       \<and> snd (run_steps mm pl pidx 0 args out0) ! j = Invoked nm a c
       \<and> (\<forall>i<j. snd (run_pipeline mm b pl pidx args kwargs) ! i
                  = snd (run_steps mm pl pidx 0 args out0) ! i)"
proof -
  obtain r evs where run: "run_steps mm pl pidx 0 args out0 = (r, evs)"
    by (cases "run_steps mm pl pidx 0 args out0")
  have T: "snd (run_pipeline mm b pl pidx args kwargs) =
           (case r of Inr (Inr out') \<Rightarrow> evs @ [CleanPartialPipeline] | _ \<Rightarrow> evs)"
    using assms(1) run by (rule run_pipeline_events)
  show ?thesis
  proof (cases "\<exists>out'. r = Inr (Inr out')")
    case False
    then have "snd (run_pipeline mm b pl pidx args kwargs) = evs"
      using T by (auto split: sum.splits)
    with assms(2,3) run show ?thesis by simp
  next
    case True
    then have T': "snd (run_pipeline mm b pl pidx args kwargs) = evs @ [CleanPartialPipeline]"
      using T by auto
    have "j < length evs"
    proof (rule ccontr)
      assume "\<not> j < length evs"
      with assms(2) T' have "j = length evs" by simp
      with assms(3) T' show False by simp
    qed
    with assms(3) T' run show ?thesis by (simp add: nth_append)
  qed
qed

section \<open>Facts about the allow-list check\<close>

lemma auth_allowed_no_whitelist:
  assumes "setting b ''WHITELISTED_EMAILS'' (PList []) = Inr emails"
    and "setting b ''WHITELISTED_DOMAINS'' (PList []) = Inr domains"
    and "\<not> truthy emails" and "\<not> truthy domains"
  shows "auth_allowed b response details = Inr True"
  using assms by (simp add: auth_allowed_def)

lemma auth_allowed_lists:
  assumes "setting b ''WHITELISTED_EMAILS'' (PList []) = Inr (PList es)"
    and "setting b ''WHITELISTED_DOMAINS'' (PList []) = Inr (PList ds)"
    and "dict_get details ''email'' = PStr e"
    and "e = local_part @ CHR ''@'' # domain_part" and "CHR ''@'' \<notin> set local_part"
    and "es \<noteq> [] \<or> ds \<noteq> []"
  shows "auth_allowed b response details = Inr (PStr e \<in> set es \<or> PStr domain_part \<in> set ds)"
proof -
  have e: "e \<noteq> []" using assms(4) by simp
  have s: "split_once CHR ''@'' e = [local_part, domain_part]"
    using assms(4,5) by (rule split_once_at)
  show ?thesis
    using assms(1,2,3,6) e
    by (auto simp add: auth_allowed_def s list_index_def split: bool.splits)
qed

section \<open>Facts about the concrete configurations\<close>

lemmas example_defs =
  example_strategy_def example_backend_def example_steps_def example_context_def
  noop_step_def zero_step_def redirect_step_def associate_user_step_def load_user_step_def
  set_foo_step_def get_foo_step_def self_value_def

lemma example_init_context: "init_context example_backend [] = Inr example_context"
  by (simp add: init_context_def example_defs dict_defs)

lemma configured_setting:
  "setting (configured_backend cfg) nm dflt =
     Inr (case map_of cfg (setting_name ''foo'' nm) of
            Some v \<Rightarrow> v
          | None \<Rightarrow> (case map_of cfg nm of Some v \<Rightarrow> v | None \<Rightarrow> dflt))"
  by (simp add: setting_def configured_backend_def strategy_setting_def split: option.splits)

lemma whitelist_names:
  "setting_name ''foo'' ''WHITELISTED_EMAILS'' = ''FOO_WHITELISTED_EMAILS''"
  "setting_name ''foo'' ''WHITELISTED_DOMAINS'' = ''FOO_WHITELISTED_DOMAINS''"
  by (simp_all add: setting_name_def to_upper_def)

lemmas auth_example_defs = unbound_backend_def bound_backend_def auth_kwargs_def self_value_def

lemma example_checks: "authenticate_checks unbound_backend (auth_kwargs pl) = Inr True"
  by (simp add: authenticate_checks_def auth_example_defs has_key_def dict_get_def)

lemma example_setup:
  "authenticate_setup unbound_backend [] (auth_kwargs pl) =
     Inr (bound_backend pl, pl, PInt 0, [], auth_kwargs pl @ [(''is_new'', PBool False)])"
  by (simp add: authenticate_setup_def auth_example_defs dict_defs bind_call_def Let_def)

lemma example_auth_init:
  "init_context (bound_backend pl) (auth_kwargs pl @ [(''is_new'', PBool False)]) =
     Inr (auth_kwargs pl @ [(''is_new'', PBool False), (''request'', PStr ''request'')])"
  by (simp add: init_context_def auth_example_defs dict_defs)

lemma example_steps_pure:
  "\<forall>nm func. example_steps nm = Some func \<longrightarrow>
     (\<forall>a c c'. map_of c = map_of c' \<longrightarrow> func a c = func a c')"
  by (auto simp add: example_steps_def noop_step_def zero_step_def redirect_step_def
      associate_user_step_def load_user_step_def set_foo_step_def get_foo_step_def
      dict_get_def split: if_splits)

section \<open>Unwrapping the result of the executor\<close>

text \<open>C1 (as amended). In a run of \<^verbatim>\<open>authenticate\<close> whose checks pass and whose executor
  returns \<open>out\<close>: when \<open>out\<close> is not a mapping, \<^verbatim>\<open>authenticate\<close> returns it unchanged; when
  \<open>out\<close> is a mapping whose \<^verbatim>\<open>user\<close> entry is an object, \<^verbatim>\<open>authenticate\<close> returns that user
  with \<^verbatim>\<open>social_user\<close> and \<^verbatim>\<open>is_new\<close> set to the entries \<^verbatim>\<open>social\<close> and \<^verbatim>\<open>is_new\<close> of
  \<open>out\<close> (\<^verbatim>\<open>None\<close> for a missing entry); when \<open>out\<close> is a mapping without a \<^verbatim>\<open>user\<close> entry,
  or with one that is false, \<^verbatim>\<open>authenticate\<close> returns \<^verbatim>\<open>out.get('user')\<close>, which is
  \<^verbatim>\<open>None\<close> for a missing entry, and not the mapping.\<close>

theorem authenticate_unwraps_result:
  assumes "authenticate_checks b kwargs = Inr True"
    and "authenticate_setup b args kwargs = Inr (b', pl, pidx, args', kwargs')"
    and "run_pipeline mm b' pl pidx args' kwargs' = (Inr out, evs)"
  shows "(\<not> is_dict out \<longrightarrow> authenticate mm b args kwargs = (Inr out, evs))
       \<and> (\<forall>d label attrs. out = PDict d \<and> map_of d ''user'' = Some (PObj label attrs) \<longrightarrow>
            authenticate mm b args kwargs =
              (Inr (PObj label (AList.update ''is_new'' (dict_get d ''is_new'')
                      (AList.update ''social_user'' (dict_get d ''social'') attrs))), evs))
       \<and> (\<forall>d. out = PDict d \<and> \<not> truthy (dict_get d ''user'') \<longrightarrow>
            authenticate mm b args kwargs = (Inr (dict_get d ''user''), evs))
       \<and> (\<forall>d. out = PDict d \<and> map_of d ''user'' = None \<longrightarrow>
            authenticate mm b args kwargs = (Inr PNone, evs))"
proof -
  have a: "authenticate mm b args kwargs = pipeline mm b' pl pidx args' kwargs'"
    using assms(1,2) by (rule authenticate_passes)
  have 1: "\<not> is_dict out \<longrightarrow> pipeline mm b' pl pidx args' kwargs' = (Inr out, evs)"
    using assms(3) by (cases out) (simp_all add: pipeline_def)
  have 2: "\<forall>d label attrs. out = PDict d \<and> map_of d ''user'' = Some (PObj label attrs) \<longrightarrow>
            pipeline mm b' pl pidx args' kwargs' =
              (Inr (PObj label (AList.update ''is_new'' (dict_get d ''is_new'')
                      (AList.update ''social_user'' (dict_get d ''social'') attrs))), evs)"
    using assms(3) by (simp add: pipeline_def dict_get_def)
  have 3: "\<forall>d. out = PDict d \<and> \<not> truthy (dict_get d ''user'') \<longrightarrow>
            pipeline mm b' pl pidx args' kwargs' = (Inr (dict_get d ''user''), evs)"
    using assms(3) by (simp add: pipeline_def)
  have 4: "\<forall>d. out = PDict d \<and> map_of d ''user'' = None \<longrightarrow>
            pipeline mm b' pl pidx args' kwargs' = (Inr PNone, evs)"
    using assms(3) by (simp add: pipeline_def dict_get_def)
  show ?thesis
    unfolding a using 1 2 3 4 by blast
qed

text \<open>The scenarios of the spec: a pipeline that resolves a user, and one whose second
  step of four returns a redirect string.\<close>

theorem authenticate_unwraps_result_witness:
  "authenticate_checks unbound_backend (auth_kwargs [''associate_user'', ''load_user'']) = Inr True
   \<and> fst (run_pipeline example_steps (bound_backend [''associate_user'', ''load_user''])
        [''associate_user'', ''load_user''] (PInt 0) []
        (auth_kwargs [''associate_user'', ''load_user''] @ [(''is_new'', PBool False)]))
      = Inr (PDict (auth_kwargs [''associate_user'', ''load_user''] @
          [(''is_new'', PBool False), (''request'', PStr ''request''),
           (''pipeline_index'', PInt 1), (''social'', PStr ''link''),
           (''user'', PObj ''user'' [])]))
   \<and> fst (authenticate example_steps unbound_backend []
        (auth_kwargs [''associate_user'', ''load_user'']))
      = Inr (PObj ''user'' [(''social_user'', PStr ''link''), (''is_new'', PBool False)])
   \<and> fst (authenticate example_steps unbound_backend []
        (auth_kwargs [''noop'', ''redirect'', ''noop'', ''noop''])) = Inr (PStr ''/consent'')"
proof -
  let ?pl = "[''associate_user'', ''load_user'']"
  let ?pr = "[''noop'', ''redirect'', ''noop'', ''noop'']"
  let ?out = "auth_kwargs ?pl @
          [(''is_new'', PBool False), (''request'', PStr ''request''),
           (''pipeline_index'', PInt 1), (''social'', PStr ''link''),
           (''user'', PObj ''user'' [])]"
  obtain evs where r1: "run_pipeline example_steps (bound_backend ?pl) ?pl (PInt 0) []
        (auth_kwargs ?pl @ [(''is_new'', PBool False)]) = (Inr (PDict ?out), evs)"
    by (simp add: run_pipeline_def example_auth_init)
       (simp add: auth_kwargs_def example_defs dict_defs Let_def)
  obtain evs' where r2: "run_pipeline example_steps (bound_backend ?pr) ?pr (PInt 0) []
        (auth_kwargs ?pr @ [(''is_new'', PBool False)]) = (Inr (PStr ''/consent''), evs')"
    by (simp add: run_pipeline_def example_auth_init)
       (simp add: auth_kwargs_def example_defs dict_defs Let_def)
  have u: "map_of ?out ''user'' = Some (PObj ''user'' [])"
    by (simp add: auth_kwargs_def)
  have s: "dict_get ?out ''social'' = PStr ''link''" "dict_get ?out ''is_new'' = PBool False"
    by (simp_all add: auth_kwargs_def dict_get_def)
  have a1: "authenticate example_steps unbound_backend [] (auth_kwargs ?pl) =
      (Inr (PObj ''user'' (AList.update ''is_new'' (dict_get ?out ''is_new'')
                      (AList.update ''social_user'' (dict_get ?out ''social'') []))), evs)"
    using authenticate_unwraps_result [OF example_checks example_setup r1] u by blast
  have a2: "authenticate example_steps unbound_backend [] (auth_kwargs ?pr) =
      (Inr (PStr ''/consent''), evs')"
    using authenticate_unwraps_result [OF example_checks example_setup r2] by simp
  show ?thesis
    using example_checks [of ?pl] r1 a1 a2 by (simp add: s)
qed

text \<open>C1 as stated fails for a mapping without a \<^verbatim>\<open>user\<close> entry: the executor returns the
  context, and \<^verbatim>\<open>authenticate\<close> returns \<^verbatim>\<open>None\<close> (line 93 returns \<^verbatim>\<open>out.get('user')\<close>), not
  the context.\<close>

theorem authenticate_mapping_without_user:
  "authenticate_checks unbound_backend (auth_kwargs [''associate_user'']) = Inr True
   \<and> authenticate_setup unbound_backend [] (auth_kwargs [''associate_user'']) =
       Inr (bound_backend [''associate_user''], [''associate_user''], PInt 0, [],
            auth_kwargs [''associate_user''] @ [(''is_new'', PBool False)])
   \<and> fst (run_pipeline example_steps (bound_backend [''associate_user'']) [''associate_user'']
        (PInt 0) [] (auth_kwargs [''associate_user''] @ [(''is_new'', PBool False)]))
      = Inr (PDict (auth_kwargs [''associate_user''] @
          [(''is_new'', PBool False), (''request'', PStr ''request''),
           (''pipeline_index'', PInt 0), (''social'', PStr ''link'')]))
   \<and> \<not> has_key ''user'' (auth_kwargs [''associate_user''] @
          [(''is_new'', PBool False), (''request'', PStr ''request''),
           (''pipeline_index'', PInt 0), (''social'', PStr ''link'')])
   \<and> fst (authenticate example_steps unbound_backend [] (auth_kwargs [''associate_user'']))
      = Inr PNone"
proof -
  let ?pl = "[''associate_user'']"
  have r: "fst (run_pipeline example_steps (bound_backend ?pl) ?pl
        (PInt 0) [] (auth_kwargs ?pl @ [(''is_new'', PBool False)]))
      = Inr (PDict (auth_kwargs ?pl @
          [(''is_new'', PBool False), (''request'', PStr ''request''),
           (''pipeline_index'', PInt 0), (''social'', PStr ''link'')]))"
    by (simp add: run_pipeline_def example_auth_init)
       (simp add: auth_kwargs_def example_defs dict_defs Let_def)
  have k: "\<not> has_key ''user'' (auth_kwargs ?pl @
          [(''is_new'', PBool False), (''request'', PStr ''request''),
           (''pipeline_index'', PInt 0), (''social'', PStr ''link'')])"
    by (simp add: has_key_def auth_kwargs_def)
  have a: "fst (authenticate example_steps unbound_backend [] (auth_kwargs ?pl)) = Inr PNone"
    by (simp add: authenticate_passes [OF example_checks example_setup] pipeline_def
        run_pipeline_def example_auth_init)
       (simp add: auth_kwargs_def example_defs dict_defs Let_def)
  show ?thesis
    using example_checks [of ?pl] example_setup [of ?pl] r k a by simp
qed

section \<open>Short-circuiting\<close>

text \<open>C2 (as amended). When the steps before position \<open>k\<close> have run to completion and the
  step at position \<open>k\<close> returns a value that is true and is not a mapping, the executor
  returns exactly that value, the steps invoked are those up to and including \<open>k\<close> and
  no later one, and the partial-pipeline state is not cleared.\<close>

theorem short_circuit_stops_pipeline:
  assumes init: "init_context b kwargs = Inr out0"
    and pre: "run_steps mm pre pidx 0 args out0 = (Inr (Inr out1), evs1)"
    and idx: "py_add pidx (length pre) = Inr i"
    and res: "mm nm = Some func"
    and ret: "func args (AList.update ''pipeline_index'' i out1) = Inr v"
    and v: "truthy v" "\<not> is_dict v"
  shows "run_pipeline mm b (pre @ nm # post) pidx args kwargs =
           (Inr v, evs1 @ [Invoked nm args (AList.update ''pipeline_index'' i out1)])
       \<and> invoked_names (snd (run_pipeline mm b (pre @ nm # post) pidx args kwargs)) = pre @ [nm]
       \<and> CleanPartialPipeline \<notin> set (snd (run_pipeline mm b (pre @ nm # post) pidx args kwargs))"
proof -
  let ?ev = "Invoked nm args (AList.update ''pipeline_index'' i out1)"
  have step: "run_steps mm (nm # post) pidx (length pre) args out1 = (Inr (Inl v), [?ev])"
    using idx res ret v by (rule run_steps_short_circuit)
  have all: "run_steps mm (pre @ nm # post) pidx 0 args out0 = (Inr (Inl v), evs1 @ [?ev])"
    by (simp add: run_steps_append [of mm pre "nm # post"] pre step del: run_steps.simps)
  have run: "run_pipeline mm b (pre @ nm # post) pidx args kwargs = (Inr v, evs1 @ [?ev])"
    by (simp add: run_pipeline_def init all)
  have names: "invoked_names evs1 = pre"
    using pre by (rule run_steps_completed_names)
  have clean: "CleanPartialPipeline \<notin> set evs1"
    using pre by (rule run_steps_no_clean)
  show ?thesis
    by (simp add: run invoked_names_append names clean)
qed

text \<open>The scenario of the spec: step 2 of 4 returns a redirect string.\<close>

theorem short_circuit_stops_pipeline_witness:
  "init_context example_backend [] = Inr example_context
   \<and> run_steps example_steps [''noop''] (PInt 0) 0 [] example_context =
       (Inr (Inr (AList.update ''pipeline_index'' (PInt 0) example_context)),
        [Invoked ''noop'' [] (AList.update ''pipeline_index'' (PInt 0) example_context)])
   \<and> truthy (PStr ''/consent'') \<and> \<not> is_dict (PStr ''/consent'')
   \<and> fst (run_pipeline example_steps example_backend [''noop'', ''redirect'', ''noop'', ''noop'']
            (PInt 0) [] []) = Inr (PStr ''/consent'')
   \<and> invoked_names (snd (run_pipeline example_steps example_backend
            [''noop'', ''redirect'', ''noop'', ''noop''] (PInt 0) [] [])) = [''noop'', ''redirect'']"
proof -
  let ?out1 = "AList.update ''pipeline_index'' (PInt 0) example_context"
  have h1: "init_context example_backend [] = Inr example_context"
    by (rule example_init_context)
  have h2: "run_steps example_steps [''noop''] (PInt 0) 0 [] example_context =
       (Inr (Inr ?out1), [Invoked ''noop'' [] ?out1])"
    by (simp add: example_defs dict_defs Let_def)
  have h3: "py_add (PInt 0) (length [''noop'']) = Inr (PInt 1)" by simp
  have h4: "example_steps ''redirect'' = Some redirect_step"
    by (simp add: example_steps_def)
  have h5: "redirect_step [] (AList.update ''pipeline_index'' (PInt 1) ?out1) = Inr (PStr ''/consent'')"
    by (simp add: redirect_step_def)
  have h6: "truthy (PStr ''/consent'')" by simp
  have h7: "\<not> is_dict (PStr ''/consent'')" by simp
  show ?thesis
    using h1 h2 h6 h7
      short_circuit_stops_pipeline [OF h1 h2 h3 h4 h5 h6 h7, of "[''noop'', ''noop'']"]
    by simp
qed

text \<open>C2 as stated fails for a non-mapping value that is false: line 112 replaces it by
  an empty mapping (\<^verbatim>\<open>func(*args, **out) or {}\<close>). The first step returns \<^verbatim>\<open>0\<close>; the
  second step is invoked all the same and the result is not \<^verbatim>\<open>0\<close>.\<close>

theorem falsy_non_mapping_continues:
  "example_steps ''zero'' = Some zero_step
   \<and> zero_step [] (AList.update ''pipeline_index'' (PInt 0) example_context) = Inr (PInt 0)
   \<and> \<not> is_dict (PInt 0)
   \<and> invoked_names (snd (run_pipeline example_steps example_backend [''zero'', ''noop'']
        (PInt 0) [] [])) = [''zero'', ''noop'']
   \<and> fst (run_pipeline example_steps example_backend [''zero'', ''noop''] (PInt 0) [] [])
       \<noteq> Inr (PInt 0)"
  by (simp add: run_pipeline_def example_init_context)
     (simp add: example_defs dict_defs Let_def)

section \<open>Settings\<close>

text \<open>C3. \<^verbatim>\<open>setting('X')\<close> of the backend \<^verbatim>\<open>foo\<close> returns the value stored under the
  provider-namespaced key \<^verbatim>\<open>FOO_X\<close> when there is one, else the value stored under \<^verbatim>\<open>X\<close>,
  else the default; whether a stored value is true or false plays no part.\<close>

theorem setting_lookup_order:
  assumes "strategy b = PStrategy s"
  shows "(\<forall>v. map_of (settings s) (setting_name (name b) X) = Some v \<longrightarrow>
            setting b X dflt = Inr v)
       \<and> (\<forall>v. map_of (settings s) (setting_name (name b) X) = None
              \<and> map_of (settings s) X = Some v \<longrightarrow>
            setting b X dflt = Inr v)
       \<and> (map_of (settings s) (setting_name (name b) X) = None
              \<and> map_of (settings s) X = None \<longrightarrow>
            setting b X dflt = Inr dflt)"
  using assms by (simp add: setting_def strategy_setting_def)

theorem setting_lookup_order_witness:
  "strategy (configured_backend [(''FOO_X'', PStr ''''), (''X'', PInt 5), (''Y'', PInt 0)])
     = PStrategy (Strategy [(''FOO_X'', PStr ''''), (''X'', PInt 5), (''Y'', PInt 0)]
         (PStr ''request'') (PDict []) [])
   \<and> name (configured_backend [(''FOO_X'', PStr ''''), (''X'', PInt 5), (''Y'', PInt 0)]) = ''foo''
   \<and> setting_name ''foo'' ''X'' = ''FOO_X''
   \<and> \<not> truthy (PStr '''') \<and> \<not> truthy (PInt 0)
   \<and> setting (configured_backend [(''FOO_X'', PStr ''''), (''X'', PInt 5), (''Y'', PInt 0)])
        ''X'' PNone = Inr (PStr '''')
   \<and> setting (configured_backend [(''FOO_X'', PStr ''''), (''X'', PInt 5), (''Y'', PInt 0)])
        ''Y'' (PInt 7) = Inr (PInt 0)
   \<and> setting (configured_backend [(''FOO_X'', PStr ''''), (''X'', PInt 5), (''Y'', PInt 0)])
        ''Z'' (PInt 7) = Inr (PInt 7)"
proof -
  let ?cfg = "[(''FOO_X'', PStr ''''), (''X'', PInt 5), (''Y'', PInt 0)]"
  let ?s = "Strategy ?cfg (PStr ''request'') (PDict []) []"
  have h: "strategy (configured_backend ?cfg) = PStrategy ?s"
    by (simp add: configured_backend_def)
  have n: "name (configured_backend ?cfg) = ''foo''"
    by (simp add: configured_backend_def)
  have k: "setting_name ''foo'' ''X'' = ''FOO_X''" "setting_name ''foo'' ''Y'' = ''FOO_Y''"
    "setting_name ''foo'' ''Z'' = ''FOO_Z''"
    by (simp_all add: setting_name_def to_upper_def)
  show ?thesis
    using setting_lookup_order [OF h, of "''X''" PNone]
      setting_lookup_order [OF h, of "''Y''" "PInt 7"]
      setting_lookup_order [OF h, of "''Z''" "PInt 7"] h
    by (simp add: n k)
qed

section \<open>Clearing the partial pipeline\<close>

text \<open>C4. The executor calls \<^verbatim>\<open>strategy.clean_partial_pipeline()\<close> exactly when the loop
  over the steps runs to its end, and then exactly once, after every step has been
  invoked; when a step's result is returned from inside the loop, it is never called.\<close>

theorem clean_partial_pipeline_iff_completed:
  "(CleanPartialPipeline \<in> set (snd (run_pipeline mm b pl pidx args kwargs)) \<longleftrightarrow>
      (\<exists>out0 out'. init_context b kwargs = Inr out0
          \<and> fst (run_steps mm pl pidx 0 args out0) = Inr (Inr out')))
   \<and> (\<forall>out0 out'. init_context b kwargs = Inr out0
          \<and> fst (run_steps mm pl pidx 0 args out0) = Inr (Inr out') \<longrightarrow>
        count_list (snd (run_pipeline mm b pl pidx args kwargs)) CleanPartialPipeline = 1
        \<and> invoked_names (snd (run_pipeline mm b pl pidx args kwargs)) = pl
        \<and> fst (run_pipeline mm b pl pidx args kwargs) = Inr (PDict out'))
   \<and> (\<forall>out0 v. init_context b kwargs = Inr out0
          \<and> fst (run_steps mm pl pidx 0 args out0) = Inr (Inl v) \<longrightarrow>
        CleanPartialPipeline \<notin> set (snd (run_pipeline mm b pl pidx args kwargs))
        \<and> fst (run_pipeline mm b pl pidx args kwargs) = Inr v)"
proof (cases "init_context b kwargs")
  case (Inl e)
  then show ?thesis by (simp add: run_pipeline_init_raises)
next
  case (Inr out0)
  obtain r evs where run: "run_steps mm pl pidx 0 args out0 = (r, evs)"
    by (cases "run_steps mm pl pidx 0 args out0")
  have clean: "CleanPartialPipeline \<notin> set evs"
    using run by (rule run_steps_no_clean)
  have evs: "snd (run_pipeline mm b pl pidx args kwargs) =
           (case r of Inr (Inr out') \<Rightarrow> evs @ [CleanPartialPipeline] | _ \<Rightarrow> evs)"
    using Inr run by (rule run_pipeline_events)
  have res: "fst (run_pipeline mm b pl pidx args kwargs) =
           (case r of Inl e \<Rightarrow> Inl e | Inr (Inl v) \<Rightarrow> Inr v | Inr (Inr out') \<Rightarrow> Inr (PDict out'))"
    using Inr run by (simp add: run_pipeline_def split: sum.splits)
  have count: "count_list evs CleanPartialPipeline = 0"
    using clean by (simp add: count_list_0_iff)
  show ?thesis
  proof (cases r)
    case (Inl e)
    then show ?thesis using Inr run clean evs by simp
  next
    case r: (Inr w)
    show ?thesis
    proof (cases w)
      case (Inl v)
      then show ?thesis using r Inr run clean evs res by simp
    next
      case (Inr out')
      have "invoked_names evs = pl"
        using run r Inr by (simp add: run_steps_completed_names)
      then show ?thesis
        using r Inr \<open>init_context b kwargs = Inr out0\<close> run evs res count
        by (simp add: invoked_names_append)
    qed
  qed
qed

text \<open>The two scenarios of the spec: four steps of which the second returns a redirect
  string, and a pipeline that runs to its end.\<close>

theorem clean_partial_pipeline_iff_completed_witness:
  "init_context example_backend [] = Inr example_context
   \<and> fst (run_steps example_steps [''associate_user'', ''load_user''] (PInt 0) 0 [] example_context)
        = Inr (Inr (example_context @
             [(''pipeline_index'', PInt 1), (''social'', PStr ''link''), (''user'', PObj ''user'' [])]))
   \<and> count_list (snd (run_pipeline example_steps example_backend
        [''associate_user'', ''load_user''] (PInt 0) [] [])) CleanPartialPipeline = 1
   \<and> fst (run_steps example_steps [''noop'', ''redirect'', ''noop'', ''noop''] (PInt 0) 0 []
        example_context) = Inr (Inl (PStr ''/consent''))
   \<and> CleanPartialPipeline \<notin> set (snd (run_pipeline example_steps example_backend
        [''noop'', ''redirect'', ''noop'', ''noop''] (PInt 0) [] []))"
proof -
  let ?done = "example_context @
      [(''pipeline_index'', PInt 1), (''social'', PStr ''link''), (''user'', PObj ''user'' [])]"
  have h1: "init_context example_backend [] = Inr example_context"
    by (rule example_init_context)
  have h2: "fst (run_steps example_steps [''associate_user'', ''load_user''] (PInt 0) 0 []
        example_context) = Inr (Inr ?done)"
    by (simp add: example_defs dict_defs Let_def)
  have h3: "fst (run_steps example_steps [''noop'', ''redirect'', ''noop'', ''noop''] (PInt 0) 0 []
        example_context) = Inr (Inl (PStr ''/consent''))"
    by (simp add: example_defs dict_defs Let_def)
  have c1: "count_list (snd (run_pipeline example_steps example_backend
        [''associate_user'', ''load_user''] (PInt 0) [] [])) CleanPartialPipeline = 1"
    using clean_partial_pipeline_iff_completed
      [of example_steps example_backend "[''associate_user'', ''load_user'']" "PInt 0" "[]" "[]"]
      h1 h2 by blast
  have c2: "CleanPartialPipeline \<notin> set (snd (run_pipeline example_steps example_backend
        [''noop'', ''redirect'', ''noop'', ''noop''] (PInt 0) [] []))"
    using clean_partial_pipeline_iff_completed
      [of example_steps example_backend "[''noop'', ''redirect'', ''noop'', ''noop'']" "PInt 0" "[]" "[]"]
      h1 h3 by blast
  show ?thesis using h1 h2 h3 c1 c2 by simp
qed

section \<open>The allow-lists\<close>

text \<open>C5 (as amended). With both allow-lists empty \<^verbatim>\<open>auth_allowed\<close> returns true whatever
  the details hold, an email or none. With an email that contains \<^verbatim>\<open>@\<close> and at least one
  allow-list non-empty, it returns true exactly when the email is in the email allow-list
  or the part after the first \<^verbatim>\<open>@\<close> is in the domain allow-list.\<close>

theorem auth_allowed_whitelists:
  assumes "setting b ''WHITELISTED_EMAILS'' (PList []) = Inr (PList es)"
    and "setting b ''WHITELISTED_DOMAINS'' (PList []) = Inr (PList ds)"
  shows "(es = [] \<and> ds = [] \<longrightarrow> auth_allowed b response details = Inr True)
       \<and> (\<forall>e local_part domain_part. dict_get details ''email'' = PStr e
              \<and> e = local_part @ CHR ''@'' # domain_part \<and> CHR ''@'' \<notin> set local_part
              \<and> (es \<noteq> [] \<or> ds \<noteq> []) \<longrightarrow>
            auth_allowed b response details = Inr (PStr e \<in> set es \<or> PStr domain_part \<in> set ds))"
proof (intro conjI allI impI)
  assume "es = [] \<and> ds = []"
  then show "auth_allowed b response details = Inr True"
    using assms by (intro auth_allowed_no_whitelist [of b "PList es" "PList ds"]) simp_all
next
  fix e local_part domain_part
  assume "dict_get details ''email'' = PStr e
              \<and> e = local_part @ CHR ''@'' # domain_part \<and> CHR ''@'' \<notin> set local_part
              \<and> (es \<noteq> [] \<or> ds \<noteq> [])"
  then show "auth_allowed b response details = Inr (PStr e \<in> set es \<or> PStr domain_part \<in> set ds)"
    using assms auth_allowed_lists [of b es ds details e local_part domain_part response] by blast
qed

text \<open>The three cases of the spec: no allow-list and no email; the email allow-list
  \<^verbatim>\<open>["a@x.com"]\<close> against \<^verbatim>\<open>b@x.com\<close>; the domain allow-list \<^verbatim>\<open>["x.com"]\<close> against
  \<^verbatim>\<open>b@x.com\<close>.\<close>

theorem auth_allowed_whitelists_witness:
  "setting (configured_backend []) ''WHITELISTED_EMAILS'' (PList []) = Inr (PList [])
   \<and> setting (configured_backend []) ''WHITELISTED_DOMAINS'' (PList []) = Inr (PList [])
   \<and> auth_allowed (configured_backend []) PNone [] = Inr True
   \<and> setting (configured_backend [(''WHITELISTED_EMAILS'', PList [PStr ''a@x.com''])])
        ''WHITELISTED_EMAILS'' (PList []) = Inr (PList [PStr ''a@x.com''])
   \<and> auth_allowed (configured_backend [(''WHITELISTED_EMAILS'', PList [PStr ''a@x.com''])])
        PNone [(''email'', PStr ''b@x.com'')] = Inr False
   \<and> setting (configured_backend [(''WHITELISTED_DOMAINS'', PList [PStr ''x.com''])])
        ''WHITELISTED_DOMAINS'' (PList []) = Inr (PList [PStr ''x.com''])
   \<and> auth_allowed (configured_backend [(''WHITELISTED_DOMAINS'', PList [PStr ''x.com''])])
        PNone [(''email'', PStr ''b@x.com'')] = Inr True"
proof -
  let ?none = "configured_backend []"
  let ?emails = "configured_backend [(''WHITELISTED_EMAILS'', PList [PStr ''a@x.com''])]"
  let ?domains = "configured_backend [(''WHITELISTED_DOMAINS'', PList [PStr ''x.com''])]"
  let ?details = "[(''email'', PStr ''b@x.com'')]"
  have n1: "setting ?none ''WHITELISTED_EMAILS'' (PList []) = Inr (PList [])"
    and n2: "setting ?none ''WHITELISTED_DOMAINS'' (PList []) = Inr (PList [])"
    by (simp_all add: configured_setting)
  have e1: "setting ?emails ''WHITELISTED_EMAILS'' (PList []) = Inr (PList [PStr ''a@x.com''])"
    and e2: "setting ?emails ''WHITELISTED_DOMAINS'' (PList []) = Inr (PList [])"
    by (simp_all add: configured_setting whitelist_names)
  have d1: "setting ?domains ''WHITELISTED_EMAILS'' (PList []) = Inr (PList [])"
    and d2: "setting ?domains ''WHITELISTED_DOMAINS'' (PList []) = Inr (PList [PStr ''x.com''])"
    by (simp_all add: configured_setting whitelist_names)
  have m: "dict_get ?details ''email'' = PStr ''b@x.com''"
    by (simp add: dict_get_def)
  have a: "auth_allowed ?none PNone [] = Inr True"
    using auth_allowed_whitelists [OF n1 n2, of PNone "[]", THEN conjunct1] by simp
  have b: "auth_allowed ?emails PNone ?details = Inr False"
    using auth_allowed_whitelists [OF e1 e2, of PNone ?details, THEN conjunct2, rule_format,
        of "''b@x.com''" "''b''" "''x.com''"] m
    by simp
  have c: "auth_allowed ?domains PNone ?details = Inr True"
    using auth_allowed_whitelists [OF d1 d2, of PNone ?details, THEN conjunct2, rule_format,
        of "''b@x.com''" "''b''" "''x.com''"] m
    by simp
  show ?thesis
    using n1 n2 e1 d2 a b c by simp
qed

text \<open>C5 as stated fails for an email without \<^verbatim>\<open>@\<close>: the email \<^verbatim>\<open>alice\<close> is present and is
  in the non-empty email allow-list, yet \<^verbatim>\<open>email.split('@', 1)[1]\<close> raises before the
  membership test, and nothing is returned.\<close>

theorem auth_allowed_email_without_at:
  "setting (configured_backend [(''WHITELISTED_EMAILS'', PList [PStr ''alice''])])
        ''WHITELISTED_EMAILS'' (PList []) = Inr (PList [PStr ''alice''])
   \<and> dict_get [(''email'', PStr ''alice'')] ''email'' = PStr ''alice''
   \<and> PStr ''alice'' \<in> set [PStr ''alice'']
   \<and> auth_allowed (configured_backend [(''WHITELISTED_EMAILS'', PList [PStr ''alice''])])
        PNone [(''email'', PStr ''alice'')] = Inl IndexError"
  by (simp add: auth_allowed_def configured_setting whitelist_names dict_get_def
      split_once_def list_index_def)

section \<open>Steps that contribute nothing\<close>

text \<open>C6. When every step of the pipeline returns an empty result (any false value:
  \<^verbatim>\<open>None\<close>, an empty mapping, ...), the executor returns the initial context, that is the
  keyword arguments completed with the \<^verbatim>\<open>strategy\<close>, \<^verbatim>\<open>backend\<close> and \<^verbatim>\<open>request\<close> defaults,
  in which only \<^verbatim>\<open>pipeline_index\<close> has changed: it holds the absolute index of the last
  step. (Of an empty pipeline the result is the initial context itself.)\<close>

theorem all_empty_results_keep_context:
  assumes "init_context b kwargs = Inr out0"
    and "\<forall>j<length pl. \<exists>func v. mm (pl ! j) = Some func
           \<and> func args (AList.update ''pipeline_index'' (PInt (p + int j)) out0) = Inr v
           \<and> \<not> truthy v"
  shows "fst (run_pipeline mm b pl (PInt p) args kwargs) =
           Inr (PDict (if pl = [] then out0
                       else AList.update ''pipeline_index'' (PInt (p + int (length pl) - 1)) out0))
       \<and> (\<forall>k. k \<noteq> ''pipeline_index'' \<longrightarrow>
            dict_get (AList.update ''pipeline_index'' (PInt (p + int (length pl) - 1)) out0) k
              = dict_get out0 k)"
proof -
  have "fst (run_steps mm pl (PInt p) 0 args out0) =
           Inr (Inr (if pl = [] then out0
                     else AList.update ''pipeline_index'' (PInt (p + int (0 + length pl) - 1)) out0))"
    using assms(2) by (intro run_steps_all_empty) simp_all
  then have "fst (run_pipeline mm b pl (PInt p) args kwargs) =
           Inr (PDict (if pl = [] then out0
                       else AList.update ''pipeline_index'' (PInt (p + int (length pl) - 1)) out0))"
    using assms(1) by (simp add: fst_run_pipeline)
  then show ?thesis
    by (simp add: dict_get_def update_conv')
qed

theorem all_empty_results_keep_context_witness:
  "init_context example_backend [] = Inr example_context
   \<and> example_steps ''noop'' = Some noop_step
   \<and> noop_step [] (AList.update ''pipeline_index'' (PInt 0) example_context) = Inr PNone
   \<and> noop_step [] (AList.update ''pipeline_index'' (PInt 1) example_context) = Inr PNone
   \<and> \<not> truthy PNone
   \<and> fst (run_pipeline example_steps example_backend [''noop'', ''noop''] (PInt 0) [] []) =
       Inr (PDict (example_context @ [(''pipeline_index'', PInt 1)]))"
proof -
  have h1: "init_context example_backend [] = Inr example_context"
    by (rule example_init_context)
  have h2: "\<forall>j<length [''noop'', ''noop'']. \<exists>func v.
             example_steps ([''noop'', ''noop''] ! j) = Some func
           \<and> func [] (AList.update ''pipeline_index'' (PInt (0 + int j)) example_context) = Inr v
           \<and> \<not> truthy v"
    by (simp add: All_less_Suc example_steps_def noop_step_def)
  have h3: "example_steps ''noop'' = Some noop_step"
    by (simp add: example_steps_def)
  show ?thesis
    using all_empty_results_keep_context [OF h1 h2] h1 h3
    by (simp add: noop_step_def example_context_def)
qed

section \<open>Calls that are not for this backend\<close>

text \<open>C7 (as amended). When the keyword arguments have no \<^verbatim>\<open>backend\<close> entry, or their
  \<^verbatim>\<open>backend\<close> entry has a \<^verbatim>\<open>name\<close> attribute and that name differs from this backend's
  or the \<^verbatim>\<open>strategy\<close> or the \<^verbatim>\<open>response\<close> entry is missing, \<^verbatim>\<open>authenticate\<close> returns
  \<^verbatim>\<open>None\<close>: nothing is raised and no step is invoked.\<close>

theorem authenticate_not_applicable:
  assumes "\<not> has_key ''backend'' kwargs
         \<or> (\<exists>n. getattr (dict_get kwargs ''backend'') ''name'' = Inr n
                \<and> (n \<noteq> PStr (name b) \<or> \<not> has_key ''strategy'' kwargs
                     \<or> \<not> has_key ''response'' kwargs))"
  shows "authenticate mm b args kwargs = (Inr PNone, [])"
  using assms by (auto simp add: authenticate_def authenticate_checks_def)

text \<open>The username and password convention; another backend's name; a missing response.\<close>

theorem authenticate_not_applicable_witness:
  "\<not> has_key ''backend'' [(''username'', PStr ''u''), (''password'', PStr ''p'')]
   \<and> authenticate example_steps example_backend []
        [(''username'', PStr ''u''), (''password'', PStr ''p'')] = (Inr PNone, [])
   \<and> getattr (PObj ''BaseAuth'' [(''name'', PStr ''bar'')]) ''name'' = Inr (PStr ''bar'')
   \<and> authenticate example_steps example_backend []
        [(''backend'', PObj ''BaseAuth'' [(''name'', PStr ''bar'')]),
         (''strategy'', PStrategy example_strategy), (''response'', PDict [])] = (Inr PNone, [])
   \<and> authenticate example_steps example_backend []
        [(''backend'', PObj ''BaseAuth'' [(''name'', PStr ''foo'')]),
         (''strategy'', PStrategy example_strategy)] = (Inr PNone, [])"
proof -
  have h1: "\<not> has_key ''backend'' [(''username'', PStr ''u''), (''password'', PStr ''p'')]"
    by (simp add: has_key_def)
  have g2: "getattr (PObj ''BaseAuth'' [(''name'', PStr ''bar'')]) ''name'' = Inr (PStr ''bar'')"
    by simp
  have h2: "\<not> has_key ''backend'' [(''backend'', PObj ''BaseAuth'' [(''name'', PStr ''bar'')]),
         (''strategy'', PStrategy example_strategy), (''response'', PDict [])]
       \<or> (\<exists>n. getattr (dict_get [(''backend'', PObj ''BaseAuth'' [(''name'', PStr ''bar'')]),
                  (''strategy'', PStrategy example_strategy), (''response'', PDict [])]
                  ''backend'') ''name'' = Inr n
              \<and> (n \<noteq> PStr (name example_backend)
                  \<or> \<not> has_key ''strategy'' [(''backend'', PObj ''BaseAuth'' [(''name'', PStr ''bar'')]),
                        (''strategy'', PStrategy example_strategy), (''response'', PDict [])]
                  \<or> \<not> has_key ''response'' [(''backend'', PObj ''BaseAuth'' [(''name'', PStr ''bar'')]),
                        (''strategy'', PStrategy example_strategy), (''response'', PDict [])]))"
    by (simp add: dict_get_def example_backend_def)
  have h3: "\<not> has_key ''backend'' [(''backend'', PObj ''BaseAuth'' [(''name'', PStr ''foo'')]),
         (''strategy'', PStrategy example_strategy)]
       \<or> (\<exists>n. getattr (dict_get [(''backend'', PObj ''BaseAuth'' [(''name'', PStr ''foo'')]),
                  (''strategy'', PStrategy example_strategy)] ''backend'') ''name'' = Inr n
              \<and> (n \<noteq> PStr (name example_backend)
                  \<or> \<not> has_key ''strategy'' [(''backend'', PObj ''BaseAuth'' [(''name'', PStr ''foo'')]),
                        (''strategy'', PStrategy example_strategy)]
                  \<or> \<not> has_key ''response'' [(''backend'', PObj ''BaseAuth'' [(''name'', PStr ''foo'')]),
                        (''strategy'', PStrategy example_strategy)]))"
    by (simp add: dict_get_def has_key_def)
  show ?thesis
    using h1 g2
      authenticate_not_applicable [of _ example_backend example_steps "[]", OF disjI1, OF h1]
      authenticate_not_applicable [of _ example_backend example_steps "[]", OF h2]
      authenticate_not_applicable [of _ example_backend example_steps "[]", OF h3]
    by simp
qed

text \<open>C7 as stated fails when the \<^verbatim>\<open>backend\<close> entry has no \<^verbatim>\<open>name\<close> attribute, a bare
  provider name for instance: the keyword arguments lack \<^verbatim>\<open>strategy\<close> and \<^verbatim>\<open>response\<close>,
  yet \<^verbatim>\<open>kwargs['backend'].name\<close> raises \<^verbatim>\<open>AttributeError\<close> instead of returning
  \<^verbatim>\<open>None\<close>.\<close>

theorem authenticate_backend_without_name_raises:
  "\<not> has_key ''strategy'' [(''backend'', PStr ''bar'')]
   \<and> \<not> has_key ''response'' [(''backend'', PStr ''bar'')]
   \<and> authenticate example_steps example_backend [] [(''backend'', PStr ''bar'')]
       = (Inl AttributeError, [])"
  by (simp add: authenticate_def authenticate_checks_def has_key_def dict_get_def)

section \<open>Resuming a pipeline\<close>

text \<open>C8 (as amended). Let every step be a function of the context it receives, taken
  as a mapping. Let the run of \<open>pre\<close> from index 0 complete with the context \<open>out1\<close>, let
  \<open>out1\<close> have no key equal to the backend's name, and let \<open>post\<close> be non-empty. Then
  running \<open>pre @ post\<close> once from index 0 and running \<open>post\<close> with start index
  \<open>length pre\<close>, seeded with \<open>out1\<close> (with or without its \<^verbatim>\<open>pipeline_index\<close> entry), give
  the same result: the same exception, the same value returned by a step, or final
  contexts that are equal as dictionaries.\<close>

theorem resumption_equivalence:
  assumes pure: "\<forall>nm func. mm nm = Some func \<longrightarrow>
            (\<forall>a c c'. map_of c = map_of c' \<longrightarrow> func a c = func a c')"
    and first: "run_pipeline mm b pre (PInt 0) args kwargs = (Inr (PDict out1), evs1)"
    and nokey: "map_of out1 (name b) = None"
    and post: "post \<noteq> []"
    and seed: "\<forall>k. k \<noteq> ''pipeline_index'' \<longrightarrow> map_of seed k = map_of out1 k"
  shows "same_result
           (fst (run_pipeline mm b (pre @ post) (PInt 0) args kwargs))
           (fst (run_pipeline mm b post (PInt (int (length pre))) args seed))"
proof -
  let ?pi = "''pipeline_index''"
  let ?lift = "\<lambda>r :: error + (pyval + kwargs).
     case r of Inl e \<Rightarrow> Inl e | Inr (Inl v) \<Rightarrow> Inr v | Inr (Inr d) \<Rightarrow> Inr (PDict d)"
  from first obtain out0 where init: "init_context b kwargs = Inr out0"
    and pre: "fst (run_steps mm pre (PInt 0) 0 args out0) = Inr (Inr out1)"
    using run_pipeline_completed by blast
  from init have keys0: "map_of out0 ''backend'' \<noteq> None \<and> map_of out0 ''request'' \<noteq> None
       \<and> (name b \<noteq> ''strategy'' \<longrightarrow> map_of out0 ''strategy'' \<noteq> None)
       \<and> (\<exists>s. strategy b = PStrategy s)"
    by (rule init_context_keys)
  then obtain s where s: "strategy b = PStrategy s" by blast
  have k1: "map_of out1 ''backend'' \<noteq> None" "map_of out1 ''request'' \<noteq> None"
    using keys0 pre run_steps_keys_kept by blast+
  have k2: "name b \<noteq> ''strategy'' \<longrightarrow> map_of out1 ''strategy'' \<noteq> None"
    using keys0 pre run_steps_keys_kept by blast
  from init_context_seed [OF s k1 k2 nokey seed]
  obtain seed' where init': "init_context b seed = Inr seed'"
    and agree: "\<forall>k. k \<noteq> ?pi \<longrightarrow> map_of seed' k = map_of out1 k"
    by blast
  obtain evs where pre_run: "run_steps mm pre (PInt 0) 0 args out0 = (Inr (Inr out1), evs)"
    using pre by (cases "run_steps mm pre (PInt 0) 0 args out0") simp
  have full_steps: "fst (run_steps mm (pre @ post) (PInt 0) 0 args out0) =
      fst (run_steps mm post (PInt 0) (length pre) args out1)"
    by (simp add: run_steps_append pre_run split: prod.splits del: run_steps.simps)
  from post obtain nm rest where pl: "post = nm # rest" by (cases post) auto
  let ?i = "PInt (int (length pre))"
  have a1: "py_add (PInt 0) (length pre) = Inr ?i" by simp
  have a2: "py_add ?i 0 = Inr ?i" by simp
  have m: "map_of (AList.update ?pi ?i out1) = map_of (AList.update ?pi ?i seed')"
    using agree by (auto simp add: update_conv' fun_eq_iff)
  have adds: "\<forall>j. py_add (PInt 0) (length pre + j) = py_add ?i (0 + j)"
    by simp
  have "same_loop_result
          (fst (run_steps mm post (PInt 0) (length pre) args (AList.update ?pi ?i out1)))
          (fst (run_steps mm post ?i 0 args (AList.update ?pi ?i seed')))"
    using pure m adds by (rule run_steps_cong)
  then have loop: "same_loop_result
          (fst (run_steps mm post (PInt 0) (length pre) args out1))
          (fst (run_steps mm post ?i 0 args seed'))"
    unfolding pl run_steps_preset [OF a1] run_steps_preset [OF a2] .
  have "same_result (?lift (fst (run_steps mm post (PInt 0) (length pre) args out1)))
          (?lift (fst (run_steps mm post ?i 0 args seed')))"
    using loop by (rule same_result_lift)
  then show ?thesis
    by (simp add: fst_run_pipeline [OF init] fst_run_pipeline [OF init'] full_steps)
qed

text \<open>A pipeline of two steps interrupted after the first: the resumed run inserts
  \<^verbatim>\<open>pipeline_index\<close> at another place, and ends with the same dictionary.\<close>

theorem resumption_equivalence_witness:
  "fst (run_pipeline example_steps example_backend [''associate_user''] (PInt 0) [] []) =
     Inr (PDict (example_context @ [(''pipeline_index'', PInt 0), (''social'', PStr ''link'')]))
   \<and> map_of (example_context @ [(''pipeline_index'', PInt 0), (''social'', PStr ''link'')])
        (name example_backend) = None
   \<and> fst (run_pipeline example_steps example_backend [''load_user''] (PInt 1) []
        (example_context @ [(''social'', PStr ''link'')])) =
     Inr (PDict (example_context @ [(''social'', PStr ''link''), (''pipeline_index'', PInt 1),
        (''user'', PObj ''user'' [])]))
   \<and> same_result
        (fst (run_pipeline example_steps example_backend [''associate_user'', ''load_user'']
           (PInt 0) [] []))
        (fst (run_pipeline example_steps example_backend [''load_user''] (PInt 1) []
           (example_context @ [(''social'', PStr ''link'')])))"
proof -
  let ?out1 = "example_context @ [(''pipeline_index'', PInt 0), (''social'', PStr ''link'')]"
  let ?seed = "example_context @ [(''social'', PStr ''link'')]"
  obtain evs1 where first: "run_pipeline example_steps example_backend [''associate_user'']
      (PInt 0) [] [] = (Inr (PDict ?out1), evs1)"
    by (simp add: run_pipeline_def example_init_context)
       (simp add: example_defs dict_defs Let_def)
  have nokey: "map_of ?out1 (name example_backend) = None"
    by (simp add: example_defs)
  have post: "[''load_user''] \<noteq> []" by simp
  have seed: "\<forall>k. k \<noteq> ''pipeline_index'' \<longrightarrow> map_of ?seed k = map_of ?out1 k"
    by (simp add: example_defs)
  have resumed: "fst (run_pipeline example_steps example_backend [''load_user''] (PInt 1) []
        ?seed) =
     Inr (PDict (example_context @ [(''social'', PStr ''link''), (''pipeline_index'', PInt 1),
        (''user'', PObj ''user'' [])]))"
    by (simp add: run_pipeline_def init_context_def example_defs dict_defs Let_def)
  show ?thesis
    using resumption_equivalence [OF example_steps_pure first nokey post seed] first nokey
      resumed
    by simp
qed

text \<open>C8 as stated fails when a step before the split contributes a key equal to the
  backend's name. The backend is named \<^verbatim>\<open>foo\<close>; the first step returns \<^verbatim>\<open>{'foo': 1}\<close> and
  the second reports the entry \<^verbatim>\<open>foo\<close> it receives, both as functions of the context. Run
  at once, the second step sees \<^verbatim>\<open>foo = 1\<close>. Resumed from the first run's context, with
  or without its \<^verbatim>\<open>pipeline_index\<close> entry, the executor pops \<^verbatim>\<open>foo\<close> on entry, the second
  step sees nothing, and the final contexts differ.\<close>

theorem resumption_differs_after_provider_key:
  "fst (run_pipeline example_steps example_backend [''set_foo''] (PInt 0) [] []) =
     Inr (PDict (example_context @ [(''pipeline_index'', PInt 0), (''foo'', PInt 1)]))
   \<and> fst (run_pipeline example_steps example_backend [''set_foo'', ''get_foo''] (PInt 0) [] []) =
     Inr (PDict (example_context @
        [(''pipeline_index'', PInt 1), (''foo'', PInt 1), (''seen'', PInt 1)]))
   \<and> fst (run_pipeline example_steps example_backend [''get_foo''] (PInt 1) []
        (example_context @ [(''pipeline_index'', PInt 0), (''foo'', PInt 1)])) =
     Inr (PDict (example_context @ [(''pipeline_index'', PInt 1), (''seen'', PNone)]))
   \<and> fst (run_pipeline example_steps example_backend [''get_foo''] (PInt 1) []
        (example_context @ [(''foo'', PInt 1)])) =
     Inr (PDict (example_context @ [(''pipeline_index'', PInt 1), (''seen'', PNone)]))
   \<and> \<not> dict_eq
        (example_context @ [(''pipeline_index'', PInt 1), (''foo'', PInt 1), (''seen'', PInt 1)])
        (example_context @ [(''pipeline_index'', PInt 1), (''seen'', PNone)])"
proof -
  have 1: "fst (run_pipeline example_steps example_backend [''set_foo''] (PInt 0) [] []) =
     Inr (PDict (example_context @ [(''pipeline_index'', PInt 0), (''foo'', PInt 1)]))"
    by (simp add: run_pipeline_def example_init_context)
       (simp add: example_defs dict_defs Let_def)
  have 2: "fst (run_pipeline example_steps example_backend [''set_foo'', ''get_foo'']
        (PInt 0) [] []) =
     Inr (PDict (example_context @
        [(''pipeline_index'', PInt 1), (''foo'', PInt 1), (''seen'', PInt 1)]))"
    by (simp add: run_pipeline_def example_init_context)
       (simp add: example_defs dict_defs Let_def)
  have 3: "fst (run_pipeline example_steps example_backend [''get_foo''] (PInt 1) []
        (example_context @ [(''pipeline_index'', PInt 0), (''foo'', PInt 1)])) =
     Inr (PDict (example_context @ [(''pipeline_index'', PInt 1), (''seen'', PNone)]))"
    by (simp add: run_pipeline_def init_context_def example_defs dict_defs Let_def)
  have 4: "fst (run_pipeline example_steps example_backend [''get_foo''] (PInt 1) []
        (example_context @ [(''foo'', PInt 1)])) =
     Inr (PDict (example_context @ [(''pipeline_index'', PInt 1), (''seen'', PNone)]))"
    by (simp add: run_pipeline_def init_context_def example_defs dict_defs Let_def)
  have 5: "\<not> dict_eq
        (example_context @ [(''pipeline_index'', PInt 1), (''foo'', PInt 1), (''seen'', PInt 1)])
        (example_context @ [(''pipeline_index'', PInt 1), (''seen'', PNone)])"
    by (simp add: dict_eq_def example_defs)
  show ?thesis
    using 1 2 3 4 5 by simp
qed

section \<open>The entry under the provider's name\<close>

text \<open>C9 (as amended). For a backend whose name is not one of the keys \<^verbatim>\<open>backend\<close>,
  \<^verbatim>\<open>request\<close>, \<^verbatim>\<open>strategy\<close> and \<^verbatim>\<open>pipeline_index\<close> that the executor itself sets: the
  initial context has no entry under the backend's name, whether or not a \<^verbatim>\<open>backend\<close>
  entry was supplied; a supplied \<^verbatim>\<open>backend\<close> entry is kept and the popped value dropped;
  without one, the popped value becomes the \<^verbatim>\<open>backend\<close> entry when it is true and the
  backend itself does otherwise; and in every run, a step that receives a context with
  a key equal to the backend's name was preceded, in that run, by a step that returned a
  mapping holding that key. In particular the first step never receives one.\<close>

theorem provider_key_removed:
  assumes "init_context b kwargs = Inr out0"
    and "name b \<notin> {''backend'', ''request'', ''strategy'', ''pipeline_index''}"
  shows "map_of out0 (name b) = None
       \<and> (has_key ''backend'' kwargs \<longrightarrow> map_of out0 ''backend'' = map_of kwargs ''backend'')
       \<and> (\<not> has_key ''backend'' kwargs \<longrightarrow>
            map_of out0 ''backend'' =
              Some (if truthy (dict_get kwargs (name b)) then dict_get kwargs (name b)
                    else self_value b))
       \<and> (\<forall>j nm a c. j < length (snd (run_pipeline mm b pl pidx args kwargs))
              \<and> snd (run_pipeline mm b pl pidx args kwargs) ! j = Invoked nm a c
              \<and> map_of c (name b) \<noteq> None \<longrightarrow>
            (\<exists>i<j. \<exists>nm' a' c' func d.
                snd (run_pipeline mm b pl pidx args kwargs) ! i = Invoked nm' a' c'
              \<and> mm nm' = Some func \<and> func a' c' = Inr (PDict d)
              \<and> map_of d (name b) \<noteq> None))"
proof -
  let ?out1 = "setdefault ''strategy'' (strategy b) kwargs"
  let ?popped = "dict_get ?out1 (name b)"
  let ?out2 = "AList.delete (name b) ?out1"
  let ?out3 = "setdefault ''backend'' (if truthy ?popped then ?popped else self_value b) ?out2"
  let ?T = "snd (run_pipeline mm b pl pidx args kwargs)"
  let ?E = "snd (run_steps mm pl pidx 0 args out0)"
  from assms(1) obtain s where out0: "out0 = setdefault ''request'' (request s) ?out3"
    by (auto simp add: init_context_def Let_def split: pyval.splits)
  have n: "name b \<noteq> ''backend''" "name b \<noteq> ''request''" "name b \<noteq> ''strategy''"
    "name b \<noteq> ''pipeline_index''"
    using assms(2) by auto
  have popped: "?popped = dict_get kwargs (name b)"
    using n by (simp add: dict_get_def map_of_setdefault)
  have absent: "map_of out0 (name b) = None"
    using n by (simp add: out0 map_of_setdefault delete_conv')
  have kept: "has_key ''backend'' kwargs \<longrightarrow> map_of out0 ''backend'' = map_of kwargs ''backend''"
    using n(1) by (auto simp add: out0 map_of_setdefault delete_conv' has_key_def)
  have dflt: "\<not> has_key ''backend'' kwargs \<longrightarrow>
            map_of out0 ''backend'' =
              Some (if truthy (dict_get kwargs (name b)) then dict_get kwargs (name b)
                    else self_value b)"
    using n(1) unfolding out0 popped
    by (simp add: map_of_setdefault delete_conv' has_key_def)
  have origin: "\<exists>i<j. \<exists>nm' a' c' func d. ?T ! i = Invoked nm' a' c'
              \<and> mm nm' = Some func \<and> func a' c' = Inr (PDict d) \<and> map_of d (name b) \<noteq> None"
    if j: "j < length ?T" and ev: "?T ! j = Invoked nm a c" and key: "map_of c (name b) \<noteq> None"
    for j nm a c
  proof -
    from run_pipeline_invoked_nth [OF assms(1) j ev]
    have jE: "j < length ?E" and evE: "?E ! j = Invoked nm a c"
      and same: "\<forall>i<j. ?T ! i = ?E ! i"
      by blast+
    have run: "run_steps mm pl pidx 0 args out0 = (fst (run_steps mm pl pidx 0 args out0), ?E)"
      by simp
    from run_steps_key_origin [OF n(4) run jE evE key] absent
    obtain i nm' a' c' func d where "i < j" "?E ! i = Invoked nm' a' c'" "mm nm' = Some func"
      "func a' c' = Inr (PDict d)" "map_of d (name b) \<noteq> None"
      by blast
    with same show ?thesis by auto
  qed
  show ?thesis
    using absent kept dflt origin by blast
qed

text \<open>The old calling convention, in which the backend travels under its own name: the
  entry \<^verbatim>\<open>foo\<close> is popped and becomes the \<^verbatim>\<open>backend\<close> entry; the first step does not
  receive a key \<^verbatim>\<open>foo\<close>; the second does, and the first step returned it.\<close>

theorem provider_key_removed_witness:
  "init_context example_backend [(''foo'', PObj ''legacy'' [])] =
     Inr [(''strategy'', PStrategy example_strategy), (''backend'', PObj ''legacy'' []),
          (''request'', PStr ''request'')]
   \<and> name example_backend = ''foo''
   \<and> map_of [(''strategy'', PStrategy example_strategy), (''backend'', PObj ''legacy'' []),
          (''request'', PStr ''request'')] ''foo'' = None
   \<and> map_of [(''strategy'', PStrategy example_strategy), (''backend'', PObj ''legacy'' []),
          (''request'', PStr ''request'')] ''backend'' = Some (PObj ''legacy'' [])
   \<and> snd (run_pipeline example_steps example_backend [''set_foo'', ''get_foo''] (PInt 0) []
          [(''foo'', PObj ''legacy'' [])]) =
       [Invoked ''set_foo'' []
          [(''strategy'', PStrategy example_strategy), (''backend'', PObj ''legacy'' []),
           (''request'', PStr ''request''), (''pipeline_index'', PInt 0)],
        Invoked ''get_foo'' []
          [(''strategy'', PStrategy example_strategy), (''backend'', PObj ''legacy'' []),
           (''request'', PStr ''request''), (''pipeline_index'', PInt 1), (''foo'', PInt 1)],
        CleanPartialPipeline]
   \<and> map_of [(''strategy'', PStrategy example_strategy), (''backend'', PObj ''legacy'' []),
           (''request'', PStr ''request''), (''pipeline_index'', PInt 0)] ''foo'' = None
   \<and> (\<exists>i<1. \<exists>nm' a' c' func d.
          snd (run_pipeline example_steps example_backend [''set_foo'', ''get_foo''] (PInt 0) []
                [(''foo'', PObj ''legacy'' [])]) ! i = Invoked nm' a' c'
        \<and> example_steps nm' = Some func \<and> func a' c' = Inr (PDict d)
        \<and> map_of d ''foo'' \<noteq> None)"
proof -
  let ?kw = "[(''foo'', PObj ''legacy'' [])]"
  let ?out0 = "[(''strategy'', PStrategy example_strategy), (''backend'', PObj ''legacy'' []),
          (''request'', PStr ''request'')]"
  let ?c0 = "[(''strategy'', PStrategy example_strategy), (''backend'', PObj ''legacy'' []),
           (''request'', PStr ''request''), (''pipeline_index'', PInt 0)]"
  let ?c1 = "[(''strategy'', PStrategy example_strategy), (''backend'', PObj ''legacy'' []),
           (''request'', PStr ''request''), (''pipeline_index'', PInt 1), (''foo'', PInt 1)]"
  let ?T = "snd (run_pipeline example_steps example_backend [''set_foo'', ''get_foo''] (PInt 0) []
          ?kw)"
  have h1: "init_context example_backend ?kw = Inr ?out0"
    by (simp add: init_context_def example_backend_def example_strategy_def dict_defs)
  have n: "name example_backend = ''foo''"
    by (simp add: example_backend_def)
  have h2: "name example_backend \<notin> {''backend'', ''request'', ''strategy'', ''pipeline_index''}"
    by (simp add: n)
  have T: "?T = [Invoked ''set_foo'' [] ?c0, Invoked ''get_foo'' [] ?c1, CleanPartialPipeline]"
    by (simp add: run_pipeline_def h1)
       (simp add: example_steps_def set_foo_step_def get_foo_step_def dict_defs Let_def)
  have k: "\<not> has_key ''backend'' ?kw" "dict_get ?kw ''foo'' = PObj ''legacy'' []"
    by (simp_all add: has_key_def dict_get_def)
  note th = provider_key_removed [OF h1 h2, of example_steps "[''set_foo'', ''get_foo'']"
      "PInt 0" "[]"]
  note origin = th [THEN conjunct2, THEN conjunct2, THEN conjunct2, rule_format]
  have c1: "map_of ?out0 ''foo'' = None"
    using th n by simp
  have c3: "map_of ?out0 ''backend'' = Some (PObj ''legacy'' [])"
    using th k n by simp
  have first: "map_of ?c0 (name example_backend) = None"
  proof (rule ccontr)
    assume key: "map_of ?c0 (name example_backend) \<noteq> None"
    have "0 < length ?T \<and> ?T ! 0 = Invoked ''set_foo'' [] ?c0
        \<and> map_of ?c0 (name example_backend) \<noteq> None"
      using key by (simp add: T)
    then have "\<exists>i<0. \<exists>nm' a' c' func d. ?T ! i = Invoked nm' a' c'
        \<and> example_steps nm' = Some func \<and> func a' c' = Inr (PDict d)
        \<and> map_of d (name example_backend) \<noteq> None"
      by (rule origin)
    then show False by simp
  qed
  have second: "\<exists>i<1. \<exists>nm' a' c' func d. ?T ! i = Invoked nm' a' c'
        \<and> example_steps nm' = Some func \<and> func a' c' = Inr (PDict d)
        \<and> map_of d (name example_backend) \<noteq> None"
  proof (rule origin)
    show "1 < length ?T \<and> ?T ! 1 = Invoked ''get_foo'' [] ?c1
        \<and> map_of ?c1 (name example_backend) \<noteq> None"
      by (simp add: T n)
  qed
  show ?thesis
    using h1 n c1 c3 T first second by (simp only: n)
qed

text \<open>C9 as stated fails once a step contributes a key equal to the backend's name: the
  backend is named \<^verbatim>\<open>foo\<close>, the first step returns \<^verbatim>\<open>{'foo': 1}\<close>, and the second step
  receives the key \<^verbatim>\<open>foo\<close>.\<close>

theorem later_step_receives_provider_key:
  "name example_backend = ''foo''
   \<and> Invoked ''get_foo'' []
        (example_context @ [(''pipeline_index'', PInt 1), (''foo'', PInt 1)])
       \<in> set (snd (run_pipeline example_steps example_backend [''set_foo'', ''get_foo'']
                 (PInt 0) [] []))
   \<and> map_of (example_context @ [(''pipeline_index'', PInt 1), (''foo'', PInt 1)]) ''foo''
       = Some (PInt 1)"
  by (simp add: run_pipeline_def example_init_context)
     (simp add: example_defs dict_defs Let_def)

section \<open>Totality of the allow-list check\<close>

text \<open>C10. \<^verbatim>\<open>auth_allowed\<close> returns a boolean for all details and list-valued allow-lists
  such that the email, when it is a non-empty string and some allow-list is non-empty,
  contains \<^verbatim>\<open>@\<close>. Without that condition the index \<^verbatim>\<open>[1]\<close> into the result of the split
  is out of range: with a domain allow-list configured and the email \<^verbatim>\<open>alice\<close>,
  \<^verbatim>\<open>auth_allowed\<close> raises \<^verbatim>\<open>IndexError\<close>.\<close>

theorem auth_allowed_total:
  assumes "setting b ''WHITELISTED_EMAILS'' (PList []) = Inr (PList es)"
    and "setting b ''WHITELISTED_DOMAINS'' (PList []) = Inr (PList ds)"
    and "truthy (dict_get details ''email'') \<longrightarrow> (\<exists>e. dict_get details ''email'' = PStr e)"
    and "\<forall>e. dict_get details ''email'' = PStr e \<and> e \<noteq> [] \<and> (es \<noteq> [] \<or> ds \<noteq> [])
           \<longrightarrow> CHR ''@'' \<in> set e"
  shows "(\<exists>r. auth_allowed b response details = Inr r)
       \<and> auth_allowed (configured_backend [(''WHITELISTED_DOMAINS'', PList [PStr ''x.com''])])
           PNone [(''email'', PStr ''alice'')] = Inl IndexError"
proof
  show "\<exists>r. auth_allowed b response details = Inr r"
  proof (cases "truthy (dict_get details ''email'') \<and> (es \<noteq> [] \<or> ds \<noteq> [])")
    case False
    then show ?thesis
      using assms(1,2) by (auto simp add: auth_allowed_def)
  next
    case True
    then obtain e where e: "dict_get details ''email'' = PStr e"
      using assms(3) by blast
    with True have "e \<noteq> []" by simp
    with e True assms(4) have "CHR ''@'' \<in> set e" by blast
    then have "list_index (split_once CHR ''@'' e) 1 = Inr (split_once CHR ''@'' e ! 1)"
      by (simp add: list_index_def split_once_length)
    then show ?thesis
      using assms(1,2) e True
      by (auto simp add: auth_allowed_def split: bool.splits)
  qed
next
  show "auth_allowed (configured_backend [(''WHITELISTED_DOMAINS'', PList [PStr ''x.com''])])
           PNone [(''email'', PStr ''alice'')] = Inl IndexError"
    by (simp add: auth_allowed_def configured_setting whitelist_names dict_get_def
        split_once_def list_index_def)
qed

theorem auth_allowed_total_witness:
  "setting (configured_backend [(''WHITELISTED_EMAILS'', PList [PStr ''a@x.com''])])
        ''WHITELISTED_EMAILS'' (PList []) = Inr (PList [PStr ''a@x.com''])
   \<and> setting (configured_backend [(''WHITELISTED_EMAILS'', PList [PStr ''a@x.com''])])
        ''WHITELISTED_DOMAINS'' (PList []) = Inr (PList [])
   \<and> dict_get [(''email'', PStr ''b@x.com'')] ''email'' = PStr ''b@x.com''
   \<and> CHR ''@'' \<in> set ''b@x.com''
   \<and> (\<exists>r. auth_allowed (configured_backend [(''WHITELISTED_EMAILS'', PList [PStr ''a@x.com''])])
          PNone [(''email'', PStr ''b@x.com'')] = Inr r)"
proof -
  let ?emails = "configured_backend [(''WHITELISTED_EMAILS'', PList [PStr ''a@x.com''])]"
  let ?details = "[(''email'', PStr ''b@x.com'')]"
  have e1: "setting ?emails ''WHITELISTED_EMAILS'' (PList []) = Inr (PList [PStr ''a@x.com''])"
    and e2: "setting ?emails ''WHITELISTED_DOMAINS'' (PList []) = Inr (PList [])"
    by (simp_all add: configured_setting whitelist_names)
  have m: "dict_get ?details ''email'' = PStr ''b@x.com''"
    by (simp add: dict_get_def)
  have h3: "truthy (dict_get ?details ''email'') \<longrightarrow> (\<exists>e. dict_get ?details ''email'' = PStr e)"
    by (simp add: m)
  have h4: "\<forall>e. dict_get ?details ''email'' = PStr e \<and> e \<noteq> []
              \<and> ([PStr ''a@x.com''] \<noteq> [] \<or> ([] :: pyval list) \<noteq> [])
           \<longrightarrow> CHR ''@'' \<in> set e"
    by (simp add: m)
  have "\<exists>r. auth_allowed ?emails PNone ?details = Inr r"
    using auth_allowed_total [OF e1 e2 h3 h4, of PNone] by (rule conjunct1)
  then show ?thesis
    using e1 e2 m by simp
qed

end
